theory Spec2Isabelle
  imports Main
begin

section \<open>The option parser of lib/fuse\_opt.c\<close>

text \<open>
  A shallow embedding of \<^verbatim>\<open>lib/fuse_opt.c\<close>. Every C function becomes a HOL function
  of the same name; the mutable \<^verbatim>\<open>struct fuse_opt_context\<close> is passed in and returned.
  A C return value of \<^verbatim>\<open>-1\<close> is \<open>Inl\<close> of an error, a return value of \<^verbatim>\<open>0\<close> is
  \<open>Inr\<close> of the updated state. A failed \<^verbatim>\<open>assert\<close> is the error \<open>AssertionFailed\<close>; it
  aborts the process, so that the call of \<^verbatim>\<open>fuse_opt_parse\<close> does not return.

  Reading conventions for the source, which is mid-refactoring and uses two spellings
  for several names: \<^verbatim>\<open>ctx->proc\<close>, \<^verbatim>\<open>ctx->data\<close>, \<^verbatim>\<open>ctx->opts\<close> are the fields
  \<^verbatim>\<open>in_proc\<close>, \<^verbatim>\<open>inout_data\<close>, \<^verbatim>\<open>tmp_opts\<close>; \<^verbatim>\<open>*ret_namelen\<close> and \<^verbatim>\<open>*sepp\<close> in
  \<^verbatim>\<open>match_template\<close> are \<^verbatim>\<open>*ret_sepidx\<close>; \<^verbatim>\<open>sep\<close> in \<^verbatim>\<open>process_gopt\<close> is
  \<^verbatim>\<open>sep_idx\<close>; \<^verbatim>\<open>opt\<close> in \<^verbatim>\<open>process_opt\<close> is \<^verbatim>\<open>optspec\<close>; the scan of
  \<^verbatim>\<open>find_opt\<close> starts at \<^verbatim>\<open>optspecs\<close>; \<^verbatim>\<open>GOTP_FLAG\<close> is \<^verbatim>\<open>GOPT_FLAG\<close>.

  Memory allocation is taken to succeed (\<^verbatim>\<open>strdup\<close>, \<^verbatim>\<open>malloc\<close>, \<^verbatim>\<open>realloc\<close> never
  return NULL), so the \<^verbatim>\<open>alloc_failed\<close> exits are not part of the model. Freed memory
  is not modelled. Argument strings are C strings: a \<open>string\<close> here stands for the
  bytes before the terminating NUL.
\<close>

subsection \<open>C strings\<close>

text \<open>\<^verbatim>\<open>s[i]\<close> for a C string: the byte at \<open>i\<close>, and the terminating NUL at its length.\<close>

definition chr_at :: "string \<Rightarrow> nat \<Rightarrow> char" where
  "chr_at s i = (if i < length s then s ! i else CHR 0x00)"

text \<open>The C string that starts at the beginning of a buffer: it ends at the first NUL.\<close>

definition cstring :: "string \<Rightarrow> string" where
  "cstring buf = takeWhile (\<lambda>c. c \<noteq> CHR 0x00) buf"

text \<open>\<^verbatim>\<open>strchr\<close>, as the index of the first occurrence.\<close>

primrec strchr :: "string \<Rightarrow> char \<Rightarrow> nat option" where
  "strchr [] c = None"
| "strchr (x # xs) c = (if x = c then Some 0 else map_option Suc (strchr xs c))"

subsection \<open>Data model\<close>

text \<open>\<^verbatim>\<open>struct fuse_args\<close>; a NULL \<^verbatim>\<open>argv\<close> is \<open>None\<close>.\<close>

record fuse_args =
  argc :: int
  argv :: "string list option"
  allocated :: int

text \<open>\<^verbatim>\<open>FUSE_ARGS_INIT(argc, argv)\<close> for a caller's argument list.\<close>

definition FUSE_ARGS_INIT :: "string list \<Rightarrow> fuse_args" where
  "FUSE_ARGS_INIT xs = \<lparr>argc = int (length xs), argv = Some xs, allocated = 0\<rparr>"

text \<open>\<^verbatim>\<open>args->argv[i]\<close>; the parser reads it only for \<open>0 \<le> i < argc\<close>.\<close>

definition argv_at :: "fuse_args \<Rightarrow> int \<Rightarrow> string" where
  "argv_at a i = (case argv a of Some xs \<Rightarrow> xs ! nat i | None \<Rightarrow> [])"

text \<open>
  \<^verbatim>\<open>struct fuse_opt\<close>. A table is the list of its entries before \<^verbatim>\<open>FUSE_OPT_END\<close>;
  a NULL table is the empty list. \<open>offset\<close> is an \<^verbatim>\<open>unsigned long\<close>, held as a
  non-negative integer; \<open>opt_value\<close> is the field \<^verbatim>\<open>value\<close>.
\<close>

record fuse_opt =
  templ :: string
  offset :: int
  opt_value :: int

text \<open>
  Modelled from the spec: the reserved keys of \<^verbatim>\<open>fuse_opt.h\<close>, which is not among the
  sources. The spec names four reserved keys (KEEP, DISCARD, NONOPT for a positional
  argument, UNKNOWN for an unrecognised option) and requires them to be distinct; the
  numbers are those of libfuse's header. \<open>minus1U\<close> is the \<^verbatim>\<open>unsigned\<close> constant
  \<^verbatim>\<open>-1U\<close> (32 bits wide) that \<^verbatim>\<open>FUSE_OPT_KEY\<close> stores as the offset of an entry
  without destination.
\<close>

definition FUSE_OPT_KEY_OPT :: int where "FUSE_OPT_KEY_OPT = -1"
definition FUSE_OPT_KEY_NONOPT :: int where "FUSE_OPT_KEY_NONOPT = -2"
definition FUSE_OPT_KEY_KEEP :: int where "FUSE_OPT_KEY_KEEP = -3"
definition FUSE_OPT_KEY_DISCARD :: int where "FUSE_OPT_KEY_DISCARD = -4"

definition minus1U :: int where "minus1U = (-1) mod 2 ^ 32"

definition FUSE_OPT_KEY :: "string \<Rightarrow> int \<Rightarrow> fuse_opt" where
  "FUSE_OPT_KEY t k = \<lparr>templ = t, offset = minus1U, opt_value = k\<rparr>"

text \<open>
  The caller's record \<^verbatim>\<open>void *data\<close>: what is stored at each offset. An entry with a
  destination stores an \<^verbatim>\<open>int\<close>, a copied string, or whatever \<^verbatim>\<open>sscanf\<close> converts.
\<close>

datatype cell = IntCell int | StrCell string

type_synonym data = "int \<rightharpoonup> cell"

text \<open>
  \<^verbatim>\<open>sscanf(param, format, var)\<close> is libc: it is a parameter of the model, giving the
  converted value when \<^verbatim>\<open>sscanf\<close> returns 1 and \<open>None\<close> otherwise.
\<close>

type_synonym sscanf_t = "string \<Rightarrow> string \<Rightarrow> cell option"

text \<open>
  \<^verbatim>\<open>fuse_opt_proc_t\<close>: the callback gets the record, the argument, the key and the
  output vector; it returns its result and may have changed the record and the vector.
\<close>

type_synonym fuse_opt_proc_t =
  "data \<Rightarrow> string \<Rightarrow> int \<Rightarrow> fuse_args \<Rightarrow> int \<times> data \<times> fuse_args"

datatype fuse_gopt_type = GOPT_FLAG | GOPT_OPTION

text \<open>
  A history variable, not a field of the C struct: \<open>trace\<close> records, in order,
  every call of the callback with its argument, key and result (\<open>Called\<close>), every
  token that \<^verbatim>\<open>call_proc\<close> keeps, with its type and key (\<open>Kept\<close>: appended to
  \<^verbatim>\<open>out_args\<close> or merged into \<^verbatim>\<open>tmp_opts\<close>), and the separator that
  \<^verbatim>\<open>process_one\<close> appends. It is only ever extended; no branch reads it.
\<close>

datatype event =
    Called string int int
  | Kept fuse_gopt_type string int
  | Separator string

record fuse_opt_context =
  in_opt :: "fuse_opt list"
  in_proc :: "fuse_opt_proc_t option"
  in_args :: fuse_args
  inout_data :: data
  out_args :: fuse_args
  tmp_argctr :: int
  tmp_opts :: "string option"
  tmp_nonopt :: int
  trace :: "event list"

text \<open>
  The ways a call returns \<^verbatim>\<open>-1\<close> (or aborts in \<^verbatim>\<open>assert\<close>). A failure of the parser
  carries the context as it is at that moment, with the record (writes to it are not
  undone) and the history.
\<close>

datatype error =
    MissingArgument string
  | InvalidParameter string
  | CallbackAbort
  | AssertionFailed

type_synonym result = "(error \<times> fuse_opt_context) + fuse_opt_context"

subsection \<open>Utilities for \<^verbatim>\<open>struct fuse_args\<close>\<close>

definition fuse_opt_add_arg :: "fuse_args \<Rightarrow> string \<Rightarrow> error + fuse_args" where
  "fuse_opt_add_arg args arg =
     (if \<not> (argv args = None \<or> allocated args \<noteq> 0) then Inl AssertionFailed
      else Inr \<lparr>argc = argc args + 1,
                argv = Some ((case argv args of None \<Rightarrow> [] | Some xs \<Rightarrow> xs) @ [arg]),
                allocated = 1\<rparr>)"

definition fuse_opt_insert_arg_common :: "fuse_args \<Rightarrow> int \<Rightarrow> string \<Rightarrow> error + fuse_args" where
  "fuse_opt_insert_arg_common args pos arg =
     (if \<not> pos \<le> argc args then Inl AssertionFailed
      else case fuse_opt_add_arg args arg of
             Inl e \<Rightarrow> Inl e
           | Inr a \<Rightarrow>
               if pos \<noteq> argc a - 1
               then Inr (a\<lparr>argv := map_option
                           (\<lambda>xs. take (nat pos) xs @ [last xs] @ drop (nat pos) (butlast xs))
                           (argv a)\<rparr>)
               else Inr a)"

definition fuse_opt_insert_arg :: "fuse_args \<Rightarrow> int \<Rightarrow> string \<Rightarrow> error + fuse_args" where
  "fuse_opt_insert_arg args pos arg = fuse_opt_insert_arg_common args pos arg"

text \<open>
  \<^verbatim>\<open>add_opt_common(&opts, opt, esc)\<close>, returning the new \<^verbatim>\<open>*opts\<close>, which is never NULL.
\<close>

definition add_opt_common :: "string option \<Rightarrow> string \<Rightarrow> bool \<Rightarrow> string option" where
  "add_opt_common opts opt esc =
     (let old = (case opts of None \<Rightarrow> [] | Some s \<Rightarrow> s);
          oldlen = length old
      in Some ((if oldlen \<noteq> 0 then old @ [CHR '',''] else [])
               @ concat (map (\<lambda>c. if esc \<and> (c = CHR '','' \<or> c = CHR 0x5C) then [CHR 0x5C, c] else [c])
                             opt)))"

subsection \<open>Finding the entry that matches a string\<close>

text \<open>\<^verbatim>\<open>match_template\<close>: \<open>None\<close> is no match, \<open>Some i\<close> a match with \<^verbatim>\<open>*ret_sepidx = i\<close>.\<close>

definition match_template :: "string \<Rightarrow> string \<Rightarrow> nat option" where
  "match_template t arg =
     (let arglen = length arg;
          sep = (case strchr t (CHR ''='') of Some i \<Rightarrow> Some i | None \<Rightarrow> strchr t (CHR '' ''));
          sep = (case sep of
                   Some i \<Rightarrow> if chr_at t (i + 1) \<noteq> CHR 0x00 \<and> chr_at t (i + 1) \<noteq> CHR ''%''
                             then None else Some i
                 | None \<Rightarrow> None)
      in case sep of
           Some i \<Rightarrow>
             (let stemlen = (if chr_at t i = CHR ''='' then i + 1 else i)
              in if arglen \<ge> stemlen \<and> take stemlen arg = take stemlen t then Some i
                 else if t = arg then Some 0 else None)
         | None \<Rightarrow> if t = arg then Some 0 else None)"

text \<open>
  \<^verbatim>\<open>find_opt\<close> returns a pointer into the table: here the rest of the table from the
  matching entry on, so that \<^verbatim>\<open>opt + 1\<close> is its tail; with it, \<^verbatim>\<open>*ret_sepidx\<close>.
\<close>

fun find_opt :: "fuse_opt list \<Rightarrow> string \<Rightarrow> (fuse_opt list \<times> nat) option" where
  "find_opt [] arg = None"
| "find_opt (opt # rest) arg =
     (case match_template (templ opt) arg of
        Some sep \<Rightarrow> Some (opt # rest, sep)
      | None \<Rightarrow> find_opt rest arg)"

definition fuse_opt_match :: "fuse_opt list \<Rightarrow> string \<Rightarrow> int" where
  "fuse_opt_match optspecs arg = (case find_opt optspecs arg of Some _ \<Rightarrow> 1 | None \<Rightarrow> 0)"

subsection \<open>Dispatching one generalized option\<close>

text \<open>The \<^verbatim>\<open>switch (typ)\<close> at the end of \<^verbatim>\<open>call_proc\<close>.\<close>

definition call_proc_keep ::
  "fuse_opt_context \<Rightarrow> string \<Rightarrow> int \<Rightarrow> fuse_gopt_type \<Rightarrow> result" where
  "call_proc_keep ctx arg key typ =
     (case typ of
        GOPT_OPTION \<Rightarrow>
          Inr (ctx\<lparr>tmp_opts := add_opt_common (tmp_opts ctx) arg True,
                   trace := trace ctx @ [Kept GOPT_OPTION arg key]\<rparr>)
      | GOPT_FLAG \<Rightarrow>
          (case fuse_opt_add_arg (out_args ctx) arg of
             Inl e \<Rightarrow> Inl (e, ctx)
           | Inr a \<Rightarrow> Inr (ctx\<lparr>out_args := a, trace := trace ctx @ [Kept GOPT_FLAG arg key]\<rparr>)))"

definition call_proc :: "fuse_opt_context \<Rightarrow> string \<Rightarrow> int \<Rightarrow> fuse_gopt_type \<Rightarrow> result" where
  "call_proc ctx arg key typ =
     (if key = FUSE_OPT_KEY_DISCARD then Inr ctx
      else case (if key \<noteq> FUSE_OPT_KEY_KEEP then in_proc ctx else None) of
             Some p \<Rightarrow>
               (case p (inout_data ctx) arg key (out_args ctx) of
                  (res, d', out') \<Rightarrow>
                    let ctx' = ctx\<lparr>inout_data := d', out_args := out',
                                   trace := trace ctx @ [Called arg key res]\<rparr>
                    in if res = -1 then Inl (CallbackAbort, ctx')
                       else if res = 0 then Inr ctx'
                       else call_proc_keep ctx' arg key typ)
           | None \<Rightarrow> call_proc_keep ctx arg key typ)"

text \<open>\<^verbatim>\<open>process_opt_param\<close> writes through \<^verbatim>\<open>var\<close>: the new record is returned.\<close>

definition process_opt_param ::
  "sscanf_t \<Rightarrow> data \<Rightarrow> int \<Rightarrow> string \<Rightarrow> string \<Rightarrow> string \<Rightarrow> error + data" where
  "process_opt_param sscanf d var format param arg =
     (if chr_at format 0 \<noteq> CHR ''%'' then Inl AssertionFailed
      else if chr_at format 1 = CHR ''s'' then Inr (d(var \<mapsto> StrCell param))
      else case sscanf param format of
             None \<Rightarrow> Inl (InvalidParameter arg)
           | Some v \<Rightarrow> Inr (d(var \<mapsto> v)))"

definition process_opt ::
  "sscanf_t \<Rightarrow> fuse_opt_context \<Rightarrow> fuse_opt \<Rightarrow> nat \<Rightarrow> string \<Rightarrow> fuse_gopt_type \<Rightarrow> result" where
  "process_opt sscanf ctx optspec sep arg typ =
     (if offset optspec = minus1U then call_proc ctx arg (opt_value optspec) typ
      else
        let var = offset optspec in
        if sep \<noteq> 0 \<and> chr_at (templ optspec) (sep + 1) \<noteq> CHR 0x00 then
          (let param = drop sep arg;
               param = (if chr_at (templ optspec) sep = CHR ''='' then drop 1 param else param)
           in case process_opt_param sscanf (inout_data ctx) var
                     (drop (sep + 1) (templ optspec)) param arg of
                Inl e \<Rightarrow> Inl (e, ctx)
              | Inr d' \<Rightarrow> Inr (ctx\<lparr>inout_data := d'\<rparr>))
        else Inr (ctx\<lparr>inout_data := (inout_data ctx)(var \<mapsto> IntCell (opt_value optspec))\<rparr>))"

lemma find_opt_length: "find_opt opts arg = Some (ys, s) \<Longrightarrow> length ys \<le> length opts"
  by (induction opts) (auto split: option.splits)

lemma find_opt_tl_length: "find_opt (tl opts) arg = Some (ys, s) \<Longrightarrow> length ys < length opts"
  by (cases opts) (auto dest: find_opt_length)

text \<open>
  The \<^verbatim>\<open>for\<close> loop of \<^verbatim>\<open>process_gopt\<close>; its last argument is the loop variable
  \<^verbatim>\<open>opt\<close> with the current \<^verbatim>\<open>sep_idx\<close> (\<open>None\<close> is the NULL pointer).
\<close>

function process_gopt_loop ::
  "sscanf_t \<Rightarrow> fuse_opt_context \<Rightarrow> string \<Rightarrow> fuse_gopt_type \<Rightarrow> (fuse_opt list \<times> nat) option \<Rightarrow> result"
where
  "process_gopt_loop sscanf ctx arg typ None = Inr ctx"
| "process_gopt_loop sscanf ctx arg typ (Some (optp, sep_idx)) =
     (let opt = hd optp;
          res =
            (if sep_idx \<noteq> 0 \<and> chr_at (templ opt) sep_idx = CHR '' '' \<and> chr_at arg sep_idx = CHR 0x00
             then
               if tmp_argctr ctx + 1 \<ge> argc (in_args ctx)
               then Inl (MissingArgument arg, ctx)
               else
                 (let ctx1 = ctx\<lparr>tmp_argctr := tmp_argctr ctx + 1\<rparr>;
                      val = argv_at (in_args ctx1) (tmp_argctr ctx1);
                      mergedarg = take sep_idx arg @ val
                  in process_opt sscanf ctx1 opt sep_idx mergedarg typ)
             else process_opt sscanf ctx opt sep_idx arg typ)
      in case res of
           Inl e \<Rightarrow> Inl e
         | Inr ctx' \<Rightarrow> process_gopt_loop sscanf ctx' arg typ (find_opt (tl optp) arg))"
  by pat_completeness auto
termination
  apply (relation "measure (\<lambda>(sscanf, ctx, arg, typ, m). case m of None \<Rightarrow> 0 | Some (ys, s) \<Rightarrow> Suc (length ys))")
   apply simp
  apply (auto split: option.splits dest: find_opt_tl_length)
  done

declare process_gopt_loop.simps [simp del]

definition process_gopt ::
  "sscanf_t \<Rightarrow> fuse_opt_context \<Rightarrow> string \<Rightarrow> fuse_gopt_type \<Rightarrow> result" where
  "process_gopt sscanf ctx arg typ =
     (case find_opt (in_opt ctx) arg of
        None \<Rightarrow> call_proc ctx arg FUSE_OPT_KEY_OPT typ
      | Some m \<Rightarrow> process_gopt_loop sscanf ctx arg typ (Some m))"


subsection \<open>Processing one argument\<close>

text \<open>
  The test for a backslash escape of three octal digits, and the byte it stands for;
  \<open>s\<close> is the text after the backslash.
\<close>

definition is_octal3 :: "string \<Rightarrow> bool" where
  "is_octal3 s \<longleftrightarrow>
     (48::nat) \<le> of_char (chr_at s 0) \<and> of_char (chr_at s 0) \<le> (51::nat) \<and>
     (48::nat) \<le> of_char (chr_at s 1) \<and> of_char (chr_at s 1) \<le> (55::nat) \<and>
     (48::nat) \<le> of_char (chr_at s 2) \<and> of_char (chr_at s 2) \<le> (55::nat)"

definition octal3 :: "string \<Rightarrow> char" where
  "octal3 s = char_of ((of_char (chr_at s 0) - 48) * 64 + (of_char (chr_at s 1) - 48) * 8
                        + (of_char (chr_at s 2) - (48::nat)))"

text \<open>
  The \<^verbatim>\<open>while (!end)\<close> loop of \<^verbatim>\<open>process_one\<close> over the copy \<^verbatim>\<open>opts\<close> of the group's
  value. \<open>d\<close> is the buffer from \<^verbatim>\<open>opts\<close> up to the write pointer \<^verbatim>\<open>d\<close>, \<open>s\<close> the
  text from the read pointer \<^verbatim>\<open>s\<close> on. The write pointer never passes the read
  pointer, so what is read is the original value. Each sub-option is handed to
  \<^verbatim>\<open>process_gopt\<close> as soon as it is complete.
\<close>

function process_one_optgroup ::
  "sscanf_t \<Rightarrow> fuse_opt_context \<Rightarrow> string \<Rightarrow> string \<Rightarrow> result" where
  "process_one_optgroup sscanf ctx d [] = process_gopt sscanf ctx (cstring d) GOPT_OPTION"
| "process_one_optgroup sscanf ctx d (c # s) =
     (if c = CHR '','' then
        (case process_gopt sscanf ctx (cstring d) GOPT_OPTION of
           Inl e \<Rightarrow> Inl e
         | Inr ctx' \<Rightarrow> process_one_optgroup sscanf ctx' [] s)
      else if c = CHR 0x5C \<and> s \<noteq> [] then
        (if is_octal3 s then process_one_optgroup sscanf ctx (d @ [octal3 s]) (drop 3 s)
         else process_one_optgroup sscanf ctx (d @ [hd s]) (tl s))
      else process_one_optgroup sscanf ctx (d @ [c]) s)"
  by pat_completeness auto
termination
  by (relation "measure (\<lambda>(sscanf, ctx, d, s). length s)") auto

declare process_one_optgroup.simps [simp del]

definition process_one :: "sscanf_t \<Rightarrow> fuse_opt_context \<Rightarrow> result" where
  "process_one sscanf ctx =
     (let arg = argv_at (in_args ctx) (tmp_argctr ctx) in
      if tmp_nonopt ctx \<noteq> 0 \<or> chr_at arg 0 \<noteq> CHR ''-'' then
        call_proc ctx arg FUSE_OPT_KEY_NONOPT GOPT_FLAG
      else if chr_at arg 1 = CHR ''o'' then
        (if chr_at arg 2 \<noteq> CHR 0x00 then process_one_optgroup sscanf ctx [] (drop 2 arg)
         else if tmp_argctr ctx + 1 < argc (in_args ctx) then
           (let ctx1 = ctx\<lparr>tmp_argctr := tmp_argctr ctx + 1\<rparr>
            in process_one_optgroup sscanf ctx1 [] (argv_at (in_args ctx1) (tmp_argctr ctx1)))
         else Inl (MissingArgument arg, ctx))
      else if chr_at arg 1 = CHR ''-'' \<and> chr_at arg 2 = CHR 0x00 then
        (case fuse_opt_add_arg (out_args ctx) arg of
           Inl e \<Rightarrow> Inl (e, ctx)
         | Inr a \<Rightarrow> Inr (ctx\<lparr>out_args := a, tmp_nonopt := argc a,
                            trace := trace ctx @ [Separator arg]\<rparr>))
      else process_gopt sscanf ctx arg GOPT_FLAG)"

subsection \<open>What a step leaves alone\<close>

text \<open>
  No step changes the input vector, the table or the callback, and the input cursor
  only moves forward. The main loop terminates because of this.
\<close>

definition frame :: "fuse_opt_context \<Rightarrow> fuse_opt_context \<Rightarrow> bool" where
  "frame ctx ctx' \<longleftrightarrow>
     in_args ctx' = in_args ctx \<and> in_opt ctx' = in_opt ctx \<and> in_proc ctx' = in_proc ctx \<and>
     tmp_argctr ctx \<le> tmp_argctr ctx'"

lemma frame_refl: "frame ctx ctx"
  by (simp add: frame_def)

lemma frame_trans: "frame a b \<Longrightarrow> frame b c \<Longrightarrow> frame a c"
  by (auto simp: frame_def)

lemma call_proc_keep_frame: "call_proc_keep ctx arg key typ = Inr ctx' \<Longrightarrow> frame ctx ctx'"
  by (auto simp: call_proc_keep_def frame_def split: fuse_gopt_type.splits sum.splits)

lemma call_proc_frame: "call_proc ctx arg key typ = Inr ctx' \<Longrightarrow> frame ctx ctx'"
  by (auto simp: call_proc_def frame_def Let_def split: if_splits option.splits prod.splits
      dest!: call_proc_keep_frame)

lemma process_opt_frame: "process_opt sscanf ctx optspec sep arg typ = Inr ctx' \<Longrightarrow> frame ctx ctx'"
  by (auto simp: process_opt_def Let_def frame_def split: if_splits sum.splits
      dest!: call_proc_frame)

text \<open>The body of the \<^verbatim>\<open>for\<close> loop of \<^verbatim>\<open>process_gopt\<close>, named for the proofs.\<close>

definition process_gopt_body ::
  "sscanf_t \<Rightarrow> fuse_opt_context \<Rightarrow> string \<Rightarrow> fuse_gopt_type \<Rightarrow> fuse_opt \<Rightarrow> nat \<Rightarrow> result" where
  "process_gopt_body sscanf ctx arg ty opt sep_idx =
     (if sep_idx \<noteq> 0 \<and> chr_at (templ opt) sep_idx = CHR '' '' \<and> chr_at arg sep_idx = CHR 0x00
      then
        if tmp_argctr ctx + 1 \<ge> argc (in_args ctx)
        then Inl (MissingArgument arg, ctx)
        else process_opt sscanf (ctx\<lparr>tmp_argctr := tmp_argctr ctx + 1\<rparr>) opt sep_idx
               (take sep_idx arg @ argv_at (in_args ctx) (tmp_argctr ctx + 1)) ty
      else process_opt sscanf ctx opt sep_idx arg ty)"

lemma process_gopt_loop_None [simp]: "process_gopt_loop sscanf ctx arg ty None = Inr ctx"
  by (simp add: process_gopt_loop.simps)

lemma process_gopt_loop_Some:
  "process_gopt_loop sscanf ctx arg ty (Some (optp, sep_idx)) =
     (case process_gopt_body sscanf ctx arg ty (hd optp) sep_idx of
        Inl e \<Rightarrow> Inl e
      | Inr ctx' \<Rightarrow> process_gopt_loop sscanf ctx' arg ty (find_opt (tl optp) arg))"
  by (simp add: process_gopt_loop.simps process_gopt_body_def Let_def)

lemma process_gopt_body_frame:
  "process_gopt_body sscanf ctx arg ty opt sep_idx = Inr ctx' \<Longrightarrow> frame ctx ctx'"
  by (auto simp: process_gopt_body_def frame_def split: if_splits dest!: process_opt_frame)

lemma process_gopt_loop_frame:
  "process_gopt_loop sscanf ctx arg ty m = Inr ctx' \<Longrightarrow> frame ctx ctx'"
proof (induction sscanf ctx arg ty m arbitrary: ctx' rule: process_gopt_loop.induct)
  case (1 sscanf ctx arg ty)
  then show ?case by (simp add: frame_refl)
next
  case (2 sscanf ctx arg ty optp sep_idx)
  from "2.prems" obtain c1 where
    b: "process_gopt_body sscanf ctx arg ty (hd optp) sep_idx = Inr c1" and
    l: "process_gopt_loop sscanf c1 arg ty (find_opt (tl optp) arg) = Inr ctx'"
    by (auto simp: process_gopt_loop_Some split: sum.splits)
  have "frame c1 ctx'"
    using "2.IH" b l
    by (auto simp: process_gopt_body_def Let_def split: if_splits)
  with process_gopt_body_frame[OF b] show ?case by (rule frame_trans)
qed

lemma process_gopt_frame: "process_gopt sscanf ctx arg ty = Inr ctx' \<Longrightarrow> frame ctx ctx'"
  by (auto simp: process_gopt_def split: option.splits
      dest: call_proc_frame process_gopt_loop_frame)

lemma process_one_optgroup_frame:
  "process_one_optgroup sscanf ctx d s = Inr ctx' \<Longrightarrow> frame ctx ctx'"
proof (induction sscanf ctx d s arbitrary: ctx' rule: process_one_optgroup.induct)
  case (1 sscanf ctx d)
  then show ?case by (auto simp: process_one_optgroup.simps dest: process_gopt_frame)
next
  case (2 sscanf ctx d c s)
  show ?case
  proof (cases "c = CHR '',''")
    case True
    with "2.prems" obtain c1 where
      g: "process_gopt sscanf ctx (cstring d) GOPT_OPTION = Inr c1" and
      l: "process_one_optgroup sscanf c1 [] s = Inr ctx'"
      by (auto simp: process_one_optgroup.simps split: sum.splits)
    from "2.IH"(1)[OF True g l] process_gopt_frame[OF g] show ?thesis
      by (blast intro: frame_trans)
  next
    case False
    with "2.prems" "2.IH"(2,3,4) show ?thesis
      by (auto simp: process_one_optgroup.simps split: if_splits)
  qed
qed

lemma process_one_frame: "process_one sscanf ctx = Inr ctx' \<Longrightarrow> frame ctx ctx'"
  apply (simp add: process_one_def Let_def split: if_splits sum.splits)
  apply (auto dest!: call_proc_frame process_gopt_frame process_one_optgroup_frame simp: frame_def)
  done


subsection \<open>The top-level parse\<close>

text \<open>The \<^verbatim>\<open>while\<close> loop of \<^verbatim>\<open>fuse_opt_parse\<close>.\<close>

function fuse_opt_parse_loop :: "sscanf_t \<Rightarrow> fuse_opt_context \<Rightarrow> result" where
  "fuse_opt_parse_loop sscanf ctx =
     (if tmp_argctr ctx < argc (in_args ctx) then
        (case process_one sscanf ctx of
           Inl e \<Rightarrow> Inl e
         | Inr ctx' \<Rightarrow> fuse_opt_parse_loop sscanf (ctx'\<lparr>tmp_argctr := tmp_argctr ctx' + 1\<rparr>))
      else Inr ctx)"
  by pat_completeness auto
termination
  apply (relation "measure (\<lambda>(sscanf, ctx). nat (argc (in_args ctx) - tmp_argctr ctx))")
   apply simp
  apply (auto dest!: process_one_frame simp: frame_def)
  done

declare fuse_opt_parse_loop.simps [simp del]

text \<open>
  The statements of \<^verbatim>\<open>fuse_opt_parse\<close> after its loop, up to the label
  \<^verbatim>\<open>success\<close>: the merged group is inserted and a trailing separator is removed.
\<close>

definition fuse_opt_parse_finish :: "fuse_opt_context \<Rightarrow> result" where
  "fuse_opt_parse_finish ctx =
     (case (case tmp_opts ctx of
              Some opts \<Rightarrow>
                (case fuse_opt_insert_arg (out_args ctx) 1 ''-o'' of
                   Inl e \<Rightarrow> Inl e
                 | Inr a \<Rightarrow> fuse_opt_insert_arg a 2 opts)
            | None \<Rightarrow> Inr (out_args ctx)) of
        Inl e \<Rightarrow> Inl (e, ctx)
      | Inr a \<Rightarrow>
          if tmp_nonopt ctx \<noteq> 0 \<and> tmp_nonopt ctx = argc a \<and> argv_at a (argc a - 1) = ''--''
          then Inr (ctx\<lparr>out_args := a\<lparr>argc := argc a - 1,
                                        argv := map_option (take (nat (argc a - 1))) (argv a)\<rparr>\<rparr>)
          else Inr (ctx\<lparr>out_args := a\<rparr>))"

text \<open>
  The statements of \<^verbatim>\<open>fuse_opt_parse\<close> before its loop: the context is initialised
  and the program name is copied.
\<close>

definition fuse_opt_parse_init ::
  "fuse_args \<Rightarrow> data \<Rightarrow> fuse_opt list \<Rightarrow> fuse_opt_proc_t option \<Rightarrow> result" where
  "fuse_opt_parse_init args d opts proc =
     (let ctx = \<lparr>in_opt = opts, in_proc = proc, in_args = args, inout_data = d,
                 out_args = \<lparr>argc = 0, argv = None, allocated = 0\<rparr>,
                 tmp_argctr = 0, tmp_opts = None, tmp_nonopt = 0, trace = []\<rparr>
      in if argc (in_args ctx) > 0 then
           (case fuse_opt_add_arg (out_args ctx) (argv_at (in_args ctx) 0) of
              Inl e \<Rightarrow> Inl (e, ctx)
            | Inr a \<Rightarrow> Inr (ctx\<lparr>out_args := a, tmp_argctr := tmp_argctr ctx + 1\<rparr>))
         else Inr ctx)"

text \<open>
  \<^verbatim>\<open>fuse_opt_parse\<close> from the initialisation of the context to the label
  \<^verbatim>\<open>success\<close> or \<^verbatim>\<open>failure\<close>, for a non-NULL \<^verbatim>\<open>args\<close>.
\<close>

definition fuse_opt_parse_ctx ::
  "sscanf_t \<Rightarrow> fuse_args \<Rightarrow> data \<Rightarrow> fuse_opt list \<Rightarrow> fuse_opt_proc_t option \<Rightarrow> result" where
  "fuse_opt_parse_ctx sscanf args d opts proc =
     (case fuse_opt_parse_init args d opts proc of
        Inl e \<Rightarrow> Inl e
      | Inr ctx1 \<Rightarrow>
          (case fuse_opt_parse_loop sscanf ctx1 of
             Inl e \<Rightarrow> Inl e
           | Inr ctx2 \<Rightarrow> fuse_opt_parse_finish ctx2))"

text \<open>
  \<^verbatim>\<open>fuse_opt_parse(args, data, opts, proc)\<close>. When the call returns, the result is
  \<open>Some\<close> of the return value, the caller's \<^verbatim>\<open>*args\<close> afterwards (\<open>None\<close> for a NULL
  \<^verbatim>\<open>args\<close>) and the caller's record afterwards; on \<^verbatim>\<open>failure\<close> \<^verbatim>\<open>*args\<close> is not
  assigned. The result is \<open>None\<close> when an \<^verbatim>\<open>assert\<close> fails: the process is aborted and
  the call does not return.
\<close>

definition fuse_opt_parse ::
  "sscanf_t \<Rightarrow> fuse_args option \<Rightarrow> data \<Rightarrow> fuse_opt list \<Rightarrow> fuse_opt_proc_t option
     \<Rightarrow> (int \<times> fuse_args option \<times> data) option" where
  "fuse_opt_parse sscanf args d opts proc =
     (case args of
        None \<Rightarrow> Some (0, args, d)
      | Some a \<Rightarrow>
          if argv a = None \<or> argc a = 0 then Some (0, args, d)
          else (case fuse_opt_parse_ctx sscanf a d opts proc of
                  Inr ctx \<Rightarrow> Some (0, Some (out_args ctx), inout_data ctx)
                | Inl (e, ctx) \<Rightarrow>
                    if e = AssertionFailed then None
                    else Some (-1, args, inout_data ctx)))"



section \<open>The callback protocol, read off the trace\<close>

text \<open>
  What a trace of a successful parse looks like. A call of the callback never has a
  reserved key KEEP or DISCARD and never returned \<open>-1\<close>; after a result of \<open>0\<close> the
  token is not kept; after any other result the very next event keeps that token under
  that key. A token kept without a preceding call has the key KEEP, or there is no
  callback at all.
\<close>

fun protocol :: "bool \<Rightarrow> event list \<Rightarrow> bool" where
  "protocol has_proc [] = True"
| "protocol has_proc (Called a k r # es) =
     (has_proc \<and> k \<noteq> FUSE_OPT_KEY_KEEP \<and> k \<noteq> FUSE_OPT_KEY_DISCARD \<and> r \<noteq> -1 \<and>
      (if r = 0 then protocol has_proc es
       else (case es of
               Kept ty a' k' # es' \<Rightarrow> a' = a \<and> k' = k \<and> protocol has_proc es'
             | _ \<Rightarrow> False)))"
| "protocol has_proc (Kept ty a k # es) =
     (k \<noteq> FUSE_OPT_KEY_DISCARD \<and> (k = FUSE_OPT_KEY_KEEP \<or> \<not> has_proc) \<and> protocol has_proc es)"
| "protocol has_proc (Separator a # es) = protocol has_proc es"


lemma protocol_Kept_tail:
  "protocol b (Kept ty a k # es) \<Longrightarrow> protocol b es"
  by simp



text \<open>One or more steps only append to the trace, and what they append follows the protocol.\<close>

definition extends :: "fuse_opt_context \<Rightarrow> fuse_opt_context \<Rightarrow> bool" where
  "extends ctx ctx' \<longleftrightarrow>
     (\<exists>es. trace ctx' = trace ctx @ es \<and> protocol (in_proc ctx \<noteq> None) es) \<and> in_proc ctx' = in_proc ctx"



lemma extends_argctr [simp]: "extends (ctx\<lparr>tmp_argctr := n\<rparr>) ctx' = extends ctx ctx'"
  "extends ctx (ctx'\<lparr>tmp_argctr := n\<rparr>) = extends ctx ctx'"
  by (simp_all add: extends_def)
















text \<open>
  The trace of a failed step: events that follow the protocol, and then the call that
  made the step fail, if a call did. A call that returned \<open>-1\<close> is the last event, with
  the error \<open>CallbackAbort\<close>; a call that returned a value other than \<open>0\<close> and \<open>-1\<close> is
  the last event when the \<^verbatim>\<open>assert\<close> of \<^verbatim>\<open>fuse_opt_add_arg\<close> failed on keeping the
  token.
\<close>

fun fail_tail :: "bool \<Rightarrow> error \<Rightarrow> event list \<Rightarrow> bool" where
  "fail_tail has_proc e [] = (e \<noteq> CallbackAbort)"
| "fail_tail has_proc e [Called a k r] =
     (has_proc \<and> k \<noteq> FUSE_OPT_KEY_KEEP \<and> k \<noteq> FUSE_OPT_KEY_DISCARD \<and>
      (if r = -1 then e = CallbackAbort else r \<noteq> 0 \<and> e = AssertionFailed))"
| "fail_tail has_proc e es = False"

definition fails :: "fuse_opt_context \<Rightarrow> error \<Rightarrow> fuse_opt_context \<Rightarrow> bool" where
  "fails ctx e c \<longleftrightarrow>
     in_proc c = in_proc ctx \<and>
     (\<exists>es tail. trace c = trace ctx @ es @ tail \<and> protocol (in_proc ctx \<noteq> None) es \<and>
        fail_tail (in_proc ctx \<noteq> None) e tail)"


lemma fails_argctr [simp]: "fails (ctx\<lparr>tmp_argctr := n\<rparr>) e c = fails ctx e c"
  by (simp add: fails_def)


lemma call_proc_keep_fails:
  "call_proc_keep ctx arg key ty = Inl (e, c) \<Longrightarrow> c = ctx \<and> e = AssertionFailed"
  by (auto simp: call_proc_keep_def fuse_opt_add_arg_def split: fuse_gopt_type.splits sum.splits
      if_splits)













text \<open>The last context of a run, reached by success or by failure.\<close>

definition final :: "result \<Rightarrow> fuse_opt_context" where
  "final r = (case r of Inl (e, c) \<Rightarrow> c | Inr c \<Rightarrow> c)"


text \<open>What the protocol says about one call, wherever it stands in the trace.\<close>

lemma protocol_at:
  "protocol b es \<Longrightarrow> es = es1 @ Called a k r # es2 \<Longrightarrow>
     b \<and> k \<noteq> FUSE_OPT_KEY_KEEP \<and> k \<noteq> FUSE_OPT_KEY_DISCARD \<and> r \<noteq> -1 \<and>
     (if r = 0 then (\<forall>ty a' k' es3. es2 = Kept ty a' k' # es3 \<longrightarrow> k' = FUSE_OPT_KEY_KEEP)
      else (\<exists>ty es3. es2 = Kept ty a k # es3))"
proof (induction b es arbitrary: es1 rule: protocol.induct)
  case (1 has_proc)
  then show ?case by simp
next
  case (2 has_proc a0 k0 r0 es)
  show ?case
  proof (cases es1)
    case Nil
    with "2.prems" have eq: "a0 = a" "k0 = k" "r0 = r" "es = es2" by simp_all
    with "2.prems"(1) show ?thesis
      by (auto split: list.splits event.splits if_splits)
  next
    case (Cons x xs)
    with "2.prems"(2) have es: "es = xs @ Called a k r # es2" by simp
    show ?thesis
    proof (cases "r0 = 0")
      case True
      with "2.prems"(1) have "protocol has_proc es" by auto
      from "2.IH"(1)[OF True this es] show ?thesis .
    next
      case False
      with "2.prems"(1) obtain ty es' where k: "es = Kept ty a0 k0 # es'" and p: "protocol has_proc es'"
        by (auto split: list.splits event.splits)
      from k es obtain xs' where "xs = Kept ty a0 k0 # xs'" "es' = xs' @ Called a k r # es2"
        by (cases xs) auto
      from "2.IH"(2)[OF False k refl p this(2)] show ?thesis .
    qed
  qed
next
  case (3 has_proc ty a0 k0 es)
  from "3.prems"(2) obtain xs where "es1 = Kept ty a0 k0 # xs" "es = xs @ Called a k r # es2"
    by (cases es1) auto
  with "3.prems"(1) "3.IH"[of xs] show ?case by simp
next
  case (4 has_proc a0 es)
  from "4.prems"(2) obtain xs where "es1 = Separator a0 # xs" "es = xs @ Called a k r # es2"
    by (cases es1) auto
  with "4.prems"(1) "4.IH"[of xs] show ?case by simp
qed


lemma protocol_Kept_last: "protocol b (es @ [Called a k r]) \<Longrightarrow> r = 0"
  using protocol_at[of b "es @ [Called a k r]" es a k r "[]"] by (auto split: if_splits)



section \<open>Evaluating the model\<close>

lemma fuse_opt_add_arg_ok:
  "argv a = None \<or> allocated a \<noteq> 0 \<Longrightarrow>
   fuse_opt_add_arg a arg =
     Inr \<lparr>argc = argc a + 1, argv = Some ((case argv a of None \<Rightarrow> [] | Some xs \<Rightarrow> xs) @ [arg]),
          allocated = 1\<rparr>"
  by (auto simp: fuse_opt_add_arg_def)

lemmas eval_defs =
  fuse_opt_parse_def fuse_opt_parse_ctx_def fuse_opt_parse_init_def fuse_opt_parse_finish_def
  fuse_opt_parse_loop.simps process_one_def process_one_optgroup.simps process_gopt_def
  process_gopt_loop.simps process_opt_def process_opt_param_def call_proc_def call_proc_keep_def
  find_opt.simps match_template_def add_opt_common_def fuse_opt_insert_arg_def
  fuse_opt_insert_arg_common_def fuse_opt_add_arg_def FUSE_ARGS_INIT_def argv_at_def
  chr_at_def cstring_def is_octal3_def octal3_def FUSE_OPT_KEY_def minus1U_def
  FUSE_OPT_KEY_OPT_def FUSE_OPT_KEY_NONOPT_def FUSE_OPT_KEY_KEEP_def FUSE_OPT_KEY_DISCARD_def
  Let_def

text \<open>A context in the middle of a parse, for the examples below.\<close>

definition witness_ctx :: "fuse_opt_proc_t option \<Rightarrow> fuse_opt_context" where
  "witness_ctx p =
     \<lparr>in_opt = [], in_proc = p,
      in_args = FUSE_ARGS_INIT [''prog'', ''-f''], inout_data = Map.empty,
      out_args = \<lparr>argc = 1, argv = Some [''prog''], allocated = 1\<rparr>,
      tmp_argctr = 1, tmp_opts = None, tmp_nonopt = 0, trace = []\<rparr>"

section \<open>The claims\<close>




text \<open>
  Claim C9. Called with a NULL \<^verbatim>\<open>args\<close>, a NULL \<^verbatim>\<open>args->argv\<close> or
  \<^verbatim>\<open>args->argc == 0\<close>, \<^verbatim>\<open>fuse_opt_parse\<close> returns 0 at once: whatever the table and
  the callback are, \<^verbatim>\<open>*args\<close> and the record are returned unchanged.
\<close>

theorem parse_null_args_returns_zero:
  "(case args of None \<Rightarrow> True | Some a \<Rightarrow> argv a = None \<or> argc a = 0) \<Longrightarrow>
   fuse_opt_parse sscanf args d opts proc = Some (0, args, d)"
  by (auto simp: fuse_opt_parse_def split: option.splits)

theorem parse_null_args_returns_zero_witness:
  "fuse_opt_parse (\<lambda>_ _. None) None Map.empty [FUSE_OPT_KEY ''-f'' 7]
     (Some (\<lambda>d a k out. (-1, d, out))) = Some (0, None, Map.empty)
   \<and> fuse_opt_parse (\<lambda>_ _. None) (Some \<lparr>argc = 3, argv = None, allocated = 0\<rparr>) Map.empty
       [FUSE_OPT_KEY ''-f'' 7] (Some (\<lambda>d a k out. (-1, d, out)))
     = Some (0, Some \<lparr>argc = 3, argv = None, allocated = 0\<rparr>, Map.empty)
   \<and> fuse_opt_parse (\<lambda>_ _. None) (Some \<lparr>argc = 0, argv = Some [], allocated = 0\<rparr>) Map.empty
       [FUSE_OPT_KEY ''-f'' 7] (Some (\<lambda>d a k out. (-1, d, out)))
     = Some (0, Some \<lparr>argc = 0, argv = Some [], allocated = 0\<rparr>, Map.empty)"
  using parse_null_args_returns_zero[where args = None]
    parse_null_args_returns_zero[where args = "Some \<lparr>argc = 3, argv = None, allocated = 0\<rparr>"]
    parse_null_args_returns_zero[where args = "Some \<lparr>argc = 0, argv = Some [], allocated = 0\<rparr>"]
  by simp







section \<open>Decoding a group of options\<close>

text \<open>
  The sub-options that the loop of \<^verbatim>\<open>process_one\<close> hands to \<^verbatim>\<open>process_gopt\<close>: the
  same loop, collecting each completed sub-option instead of dispatching it.
  \<open>dispatch_all\<close> dispatches a list of sub-options in order and stops at the first
  failure. \<open>escape_opt\<close> is the escaping of \<^verbatim>\<open>add_opt_common\<close>; \<open>join_escaped\<close> joins
  escaped sub-options with commas.
\<close>

function decode_optgroup :: "string \<Rightarrow> string \<Rightarrow> string list" where
  "decode_optgroup d [] = [cstring d]"
| "decode_optgroup d (c # s) =
     (if c = CHR '','' then cstring d # decode_optgroup [] s
      else if c = CHR 0x5C \<and> s \<noteq> [] then
        (if is_octal3 s then decode_optgroup (d @ [octal3 s]) (drop 3 s)
         else decode_optgroup (d @ [hd s]) (tl s))
      else decode_optgroup (d @ [c]) s)"
  by pat_completeness auto
termination
  by (relation "measure (\<lambda>(d, s). length s)") auto

declare decode_optgroup.simps [simp del]

fun dispatch_all :: "sscanf_t \<Rightarrow> fuse_opt_context \<Rightarrow> string list \<Rightarrow> result" where
  "dispatch_all sscanf ctx [] = Inr ctx"
| "dispatch_all sscanf ctx (x # xs) =
     (case process_gopt sscanf ctx x GOPT_OPTION of
        Inl e \<Rightarrow> Inl e
      | Inr ctx' \<Rightarrow> dispatch_all sscanf ctx' xs)"

definition escape_opt :: "string \<Rightarrow> string" where
  "escape_opt opt =
     concat (map (\<lambda>c. if c = CHR '','' \<or> c = CHR 0x5C then [CHR 0x5C, c] else [c]) opt)"

fun join_escaped :: "string list \<Rightarrow> string" where
  "join_escaped [] = []"
| "join_escaped [k] = escape_opt k"
| "join_escaped (k # ks) = escape_opt k @ CHR '','' # join_escaped ks"

lemma process_one_optgroup_dispatch_all:
  "process_one_optgroup sscanf ctx d s = dispatch_all sscanf ctx (decode_optgroup d s)"
proof (induction sscanf ctx d s rule: process_one_optgroup.induct)
  case (1 sscanf ctx d)
  show ?case
    by (simp add: process_one_optgroup.simps decode_optgroup.simps split: sum.splits)
next
  case (2 sscanf ctx d c s)
  show ?case
  proof (cases "c = CHR '',''")
    case True
    with "2.IH"(1) show ?thesis
      by (simp add: process_one_optgroup.simps decode_optgroup.simps split: sum.splits)
  next
    case False
    with "2.IH"(2,3,4) show ?thesis
      by (simp add: process_one_optgroup.simps(2)[of _ _ _ c s] decode_optgroup.simps(2)[of _ c s])
  qed
qed

lemma is_octal3_not_escaped:
  "c = CHR '','' \<or> c = CHR 0x5C \<Longrightarrow> \<not> is_octal3 (c # s)"
  by (auto simp: is_octal3_def chr_at_def)

lemma cstring_append_nonul:
  "CHR 0x00 \<notin> set k \<Longrightarrow> cstring (d @ k) = (if CHR 0x00 \<in> set d then cstring d else d @ k)"
  by (auto simp: cstring_def takeWhile_append takeWhile_eq_all_conv)

lemma decode_escape_gen:
  "decode_optgroup d (escape_opt k @ rest) = decode_optgroup (d @ k) rest"
  if "rest = [] \<or> hd rest = CHR '',''"
  using that
proof (induction k arbitrary: d)
  case Nil
  then show ?case by (simp add: escape_opt_def)
next
  case (Cons c k)
  have e: "escape_opt (c # k) = (if c = CHR '','' \<or> c = CHR 0x5C then [CHR 0x5C, c] else [c]) @ escape_opt k"
    by (simp add: escape_opt_def)
  show ?case
  proof (cases "c = CHR '','' \<or> c = CHR 0x5C")
    case True
    then have "decode_optgroup d (escape_opt (c # k) @ rest)
                 = decode_optgroup (d @ [c]) (escape_opt k @ rest)"
      using is_octal3_not_escaped[of c "escape_opt k @ rest"]
      by (simp add: e decode_optgroup.simps(2)[of d "CHR 0x5C"])
    with Cons.IH[OF Cons.prems, of "d @ [c]"] show ?thesis by simp
  next
    case False
    then have "decode_optgroup d (escape_opt (c # k) @ rest)
                 = decode_optgroup (d @ [c]) (escape_opt k @ rest)"
      by (simp add: e decode_optgroup.simps(2)[of d c])
    with Cons.IH[OF Cons.prems, of "d @ [c]"] show ?thesis by simp
  qed
qed


lemma cstring_nonul: "CHR 0x00 \<notin> set k \<Longrightarrow> cstring k = k"
  by (auto simp: cstring_def takeWhile_eq_all_conv)

lemma decode_escape_end: "CHR 0x00 \<notin> set k \<Longrightarrow> decode_optgroup [] (escape_opt k) = [k]"
  using decode_escape_gen[of "[]" "[]" k]
  by (simp add: decode_optgroup.simps(1) cstring_nonul)

lemma decode_escape_comma:
  "CHR 0x00 \<notin> set k \<Longrightarrow>
   decode_optgroup [] (escape_opt k @ CHR '','' # rest) = k # decode_optgroup [] rest"
  using decode_escape_gen[of "CHR '','' # rest" "[]" k]
  by (simp add: decode_optgroup.simps(2) cstring_nonul)

lemma decode_join_escaped:
  "ks \<noteq> [] \<Longrightarrow> \<forall>k\<in>set ks. CHR 0x00 \<notin> set k \<Longrightarrow> decode_optgroup [] (join_escaped ks) = ks"
proof (induction ks rule: join_escaped.induct)
  case 1
  then show ?case by simp
next
  case (2 k)
  then show ?case by (simp add: decode_escape_end)
next
  case (3 k v va)
  then show ?case by (simp add: decode_escape_comma)
qed

text \<open>
  Claim C4, as amended. The loop dispatches, in order and each as soon as it is complete,
  the sub-options that the value decodes to. The value is split at every comma that is
  not escaped. A backslash before three octal digits, the first of them 0 to 3, gives the
  one byte with that octal value. A backslash before anything else gives the character
  that follows it, whatever it is: a comma, a backslash, a digit 4 to 7, a digit that is
  not followed by two more octal digits. A backslash that ends the value stands for
  itself, as every other character does. A sub-option is dispatched as a C string: it ends
  at a NUL byte that an escape decoded to. Decoding undoes escaping: the comma-join of
  escaped sub-options decodes to exactly those sub-options. The value \<^verbatim>\<open>a\,b,c\<close> decodes
  to \<^verbatim>\<open>a,b\<close> and \<^verbatim>\<open>c\<close>, and \<^verbatim>\<open>ab\000cd,x\<close> to \<^verbatim>\<open>ab\<close> and \<^verbatim>\<open>x\<close>.
\<close>

theorem optgroup_decoding:
  "process_one_optgroup sscanf ctx [] v = dispatch_all sscanf ctx (decode_optgroup [] v)
   \<and> decode_optgroup d [] = [cstring d]
   \<and> decode_optgroup d (CHR '','' # s) = cstring d # decode_optgroup [] s
   \<and> decode_optgroup d (CHR 0x5C # CHR '','' # s) = decode_optgroup (d @ [CHR '','']) s
   \<and> decode_optgroup d (CHR 0x5C # CHR 0x5C # s) = decode_optgroup (d @ [CHR 0x5C]) s
   \<and> ((48::nat) \<le> of_char a \<and> of_char a \<le> (51::nat) \<and>
       (48::nat) \<le> of_char b \<and> of_char b \<le> (55::nat) \<and>
       (48::nat) \<le> of_char c \<and> of_char c \<le> (55::nat) \<longrightarrow>
       decode_optgroup d (CHR 0x5C # a # b # c # s) =
         decode_optgroup
           (d @ [char_of ((of_char a - 48) * 64 + (of_char b - 48) * 8 + (of_char c - (48::nat)))]) s)
   \<and> (\<not> is_octal3 (x # s) \<longrightarrow>
       decode_optgroup d (CHR 0x5C # x # s) = decode_optgroup (d @ [x]) s)
   \<and> (\<not> ((48::nat) \<le> of_char x \<and> of_char x \<le> (51::nat)) \<longrightarrow>
       decode_optgroup d (CHR 0x5C # x # s) = decode_optgroup (d @ [x]) s)
   \<and> decode_optgroup d [CHR 0x5C] = [cstring (d @ [CHR 0x5C])]
   \<and> (x \<noteq> CHR '','' \<and> x \<noteq> CHR 0x5C \<longrightarrow>
       decode_optgroup d (x # s) = decode_optgroup (d @ [x]) s)
   \<and> (ks \<noteq> [] \<and> (\<forall>k\<in>set ks. CHR 0x00 \<notin> set k) \<longrightarrow>
       decode_optgroup [] (join_escaped ks) = ks)
   \<and> decode_optgroup [] [CHR ''a'', CHR 0x5C, CHR '','', CHR ''b'', CHR '','', CHR ''c'']
       = [''a,b'', ''c'']
   \<and> decode_optgroup []
       [CHR ''a'', CHR ''b'', CHR 0x5C, CHR ''0'', CHR ''0'', CHR ''0'', CHR ''c'', CHR ''d'',
        CHR '','', CHR ''x'']
       = [''ab'', ''x'']"
proof -
  have 1: "process_one_optgroup sscanf ctx [] v = dispatch_all sscanf ctx (decode_optgroup [] v)"
    by (rule process_one_optgroup_dispatch_all)
  have 2: "decode_optgroup d [] = [cstring d]"
    by (simp add: decode_optgroup.simps)
  have 3: "decode_optgroup d (CHR '','' # s) = cstring d # decode_optgroup [] s"
    by (simp add: decode_optgroup.simps)
  have 4: "decode_optgroup d (CHR 0x5C # CHR '','' # s) = decode_optgroup (d @ [CHR '','']) s"
    by (simp add: decode_optgroup.simps(2)[of d "CHR 0x5C"] is_octal3_not_escaped)
  have 5: "decode_optgroup d (CHR 0x5C # CHR 0x5C # s) = decode_optgroup (d @ [CHR 0x5C]) s"
    by (simp add: decode_optgroup.simps(2)[of d "CHR 0x5C"] is_octal3_not_escaped)
  have 6: "(48::nat) \<le> of_char a \<and> of_char a \<le> (51::nat) \<and>
       (48::nat) \<le> of_char b \<and> of_char b \<le> (55::nat) \<and>
       (48::nat) \<le> of_char c \<and> of_char c \<le> (55::nat) \<longrightarrow>
       decode_optgroup d (CHR 0x5C # a # b # c # s) =
         decode_optgroup
           (d @ [char_of ((of_char a - 48) * 64 + (of_char b - 48) * 8 + (of_char c - (48::nat)))]) s"
    by (simp add: decode_optgroup.simps(2)[of d "CHR 0x5C"] is_octal3_def octal3_def chr_at_def)
  have 7: "\<not> is_octal3 (x # s) \<longrightarrow>
       decode_optgroup d (CHR 0x5C # x # s) = decode_optgroup (d @ [x]) s"
    by (simp add: decode_optgroup.simps(2)[of d "CHR 0x5C"])
  have "\<not> is_octal3 (x # s)" if "\<not> ((48::nat) \<le> of_char x \<and> of_char x \<le> (51::nat))"
    using that by (auto simp: is_octal3_def chr_at_def)
  with 7 have 8: "\<not> ((48::nat) \<le> of_char x \<and> of_char x \<le> (51::nat)) \<longrightarrow>
       decode_optgroup d (CHR 0x5C # x # s) = decode_optgroup (d @ [x]) s"
    by blast
  have 9: "decode_optgroup d [CHR 0x5C] = [cstring (d @ [CHR 0x5C])]"
    by (simp add: decode_optgroup.simps(2)[of d "CHR 0x5C"] decode_optgroup.simps(1))
  have 10: "x \<noteq> CHR '','' \<and> x \<noteq> CHR 0x5C \<longrightarrow>
       decode_optgroup d (x # s) = decode_optgroup (d @ [x]) s"
    by (simp add: decode_optgroup.simps(2)[of d x])
  have 11: "ks \<noteq> [] \<and> (\<forall>k\<in>set ks. CHR 0x00 \<notin> set k) \<longrightarrow>
       decode_optgroup [] (join_escaped ks) = ks"
    by (simp add: decode_join_escaped)
  have 12: "decode_optgroup [] [CHR ''a'', CHR 0x5C, CHR '','', CHR ''b'', CHR '','', CHR ''c'']
       = [''a,b'', ''c'']"
    by (simp add: decode_optgroup.simps is_octal3_def chr_at_def cstring_def)
  have z: "char_of (0::nat) = CHR 0x00"
    by code_simp
  have 13: "decode_optgroup []
       [CHR ''a'', CHR ''b'', CHR 0x5C, CHR ''0'', CHR ''0'', CHR ''0'', CHR ''c'', CHR ''d'',
        CHR '','', CHR ''x'']
       = [''ab'', ''x'']"
    by (simp add: decode_optgroup.simps is_octal3_def octal3_def chr_at_def cstring_def z)
  from 1 2 3 4 5 6 7 8 9 10 11 12 13 show ?thesis by blast
qed

text \<open>
  Claim C4 as stated fails for a first digit above 3: a backslash and \<^verbatim>\<open>777\<close> decode to
  the three characters \<^verbatim>\<open>777\<close>, not to one byte. And the byte that \<^verbatim>\<open>\000\<close> decodes to ends
  the sub-option: \<^verbatim>\<open>ab\000cd\<close> is dispatched as \<^verbatim>\<open>ab\<close>.
\<close>

theorem octal_escape_above_377_is_literal:
  "decode_optgroup [] [CHR 0x5C, CHR ''7'', CHR ''7'', CHR ''7''] = [''777'']
   \<and> fuse_opt_parse (\<lambda>_ _. None)
        (Some (FUSE_ARGS_INIT [''prog'', ''-o'', [CHR 0x5C, CHR ''7'', CHR ''7'', CHR ''7'']]))
        Map.empty [] (Some (\<lambda>d a k out. (1, d, out)))
      = Some (0, Some \<lparr>argc = 3, argv = Some [''prog'', ''-o'', ''777''], allocated = 1\<rparr>,
              Map.empty)
   \<and> fuse_opt_parse (\<lambda>_ _. None)
        (Some (FUSE_ARGS_INIT [''prog'', ''-o'',
           [CHR ''a'', CHR ''b'', CHR 0x5C, CHR ''0'', CHR ''0'', CHR ''0'', CHR ''c'', CHR ''d'']]))
        Map.empty [] (Some (\<lambda>d a k out. (1, d, out)))
      = Some (0, Some \<lparr>argc = 3, argv = Some [''prog'', ''-o'', ''ab''], allocated = 1\<rparr>,
              Map.empty)"
proof -
  have z: "char_of (0::nat) = CHR 0x00"
    by code_simp
  show ?thesis
    by (simp add: decode_optgroup.simps eval_defs z)
qed

theorem optgroup_decoding_witness:
  "decode_optgroup [] [CHR 0x5C, CHR ''1'', CHR ''0'', CHR ''1'', CHR '','', CHR ''x''] = [''A'', ''x'']
   \<and> decode_optgroup [] (join_escaped [''a,b'', ''c'']) = [''a,b'', ''c'']
   \<and> decode_optgroup [] [CHR 0x5C, CHR ''1'', CHR ''2''] = [''12'']
   \<and> decode_optgroup [] [CHR 0x5C, CHR ''9'', CHR ''x''] = [''9x'']
   \<and> decode_optgroup [] ''a'' = [''a'']"
proof -
  have A: "char_of (65::nat) = CHR ''A''"
    by code_simp
  have "decode_optgroup [] [CHR 0x5C, CHR ''1'', CHR ''0'', CHR ''1'', CHR '','', CHR ''x'']
          = decode_optgroup [CHR ''A''] [CHR '','', CHR ''x'']"
    using A optgroup_decoding[where d = "[]" and a = "CHR ''1''" and b = "CHR ''0''" and c = "CHR ''1''"
        and s = "[CHR '','', CHR ''x'']"]
    by simp
  moreover have "decode_optgroup [CHR ''A''] [CHR '','', CHR ''x''] = [''A'', ''x'']"
    by (simp add: decode_optgroup.simps cstring_def)
  moreover have "decode_optgroup [] (join_escaped [''a,b'', ''c'']) = [''a,b'', ''c'']"
    using optgroup_decoding[where ks = "[''a,b'', ''c'']"] by simp
  moreover have "decode_optgroup [] [CHR 0x5C, CHR ''1'', CHR ''2''] = decode_optgroup ''1'' ''2''"
    using optgroup_decoding[where d = "[]" and x = "CHR ''1''" and s = "''2''"]
    by (simp add: is_octal3_def chr_at_def)
  moreover have "decode_optgroup ''1'' ''2'' = [''12'']"
    by (simp add: decode_optgroup.simps cstring_def)
  moreover have "decode_optgroup [] [CHR 0x5C, CHR ''9'', CHR ''x''] = decode_optgroup ''9'' ''x''"
    using optgroup_decoding[where d = "[]" and x = "CHR ''9''" and s = "''x''"]
    by simp
  moreover have "decode_optgroup ''9'' ''x'' = [''9x'']"
    by (simp add: decode_optgroup.simps cstring_def)
  moreover have "decode_optgroup [] ''a'' = decode_optgroup ''a'' []"
    using optgroup_decoding[where d = "[]" and x = "CHR ''a''" and s = "[]"]
    by simp
  moreover have "decode_optgroup ''a'' [] = [''a'']"
    by (simp add: decode_optgroup.simps cstring_def)
  ultimately show ?thesis by simp
qed

text \<open>
  Claim C3, evaluated where the code departs from it. With the input
  \<^verbatim>\<open>prog -o x --\<close>, an empty table and a callback that keeps everything, the output
  is \<^verbatim>\<open>prog -o x --\<close>: the separator is the last token of the final output and is not
  removed, because \<^verbatim>\<open>tmp_nonopt\<close> still holds the length of the output before the merged
  group was inserted. Without a group (\<^verbatim>\<open>prog --\<close>) the trailing separator is removed.
\<close>

theorem separator_stays_after_merged_group:
  "fuse_opt_parse (\<lambda>_ _. None) (Some (FUSE_ARGS_INIT [''prog'', ''-o'', ''x'', ''--''])) Map.empty []
     (Some (\<lambda>d a k out. (1, d, out)))
   = Some (0, Some \<lparr>argc = 4, argv = Some [''prog'', ''-o'', ''x'', ''--''], allocated = 1\<rparr>,
           Map.empty)
   \<and> fuse_opt_parse (\<lambda>_ _. None) (Some (FUSE_ARGS_INIT [''prog'', ''--''])) Map.empty []
     (Some (\<lambda>d a k out. (1, d, out)))
   = Some (0, Some \<lparr>argc = 1, argv = Some [''prog''], allocated = 1\<rparr>, Map.empty)"
  by (simp add: eval_defs decode_optgroup.simps)



section \<open>Table lookup\<close>

text \<open>
  The entries of a table that match an argument, in table order, each with its separator
  index; and the loop body of \<^verbatim>\<open>process_gopt\<close> run once for each entry of such a list,
  stopping at the first failure.
\<close>

definition matching :: "fuse_opt list \<Rightarrow> string \<Rightarrow> (fuse_opt \<times> nat) list" where
  "matching opts arg =
     List.map_filter (\<lambda>opt. map_option (\<lambda>sep. (opt, sep)) (match_template (templ opt) arg)) opts"

fun fire_all ::
  "sscanf_t \<Rightarrow> fuse_opt_context \<Rightarrow> string \<Rightarrow> fuse_gopt_type \<Rightarrow> (fuse_opt \<times> nat) list \<Rightarrow> result"
where
  "fire_all sscanf ctx arg ty [] = Inr ctx"
| "fire_all sscanf ctx arg ty ((opt, sep_idx) # ms) =
     (case process_gopt_body sscanf ctx arg ty opt sep_idx of
        Inl e \<Rightarrow> Inl e
      | Inr ctx' \<Rightarrow> fire_all sscanf ctx' arg ty ms)"

lemma matching_Nil [simp]: "matching [] arg = []"
  by (simp add: matching_def map_filter_simps)

lemma matching_Cons:
  "matching (opt # rest) arg =
     (case match_template (templ opt) arg of
        None \<Rightarrow> matching rest arg
      | Some sep \<Rightarrow> (opt, sep) # matching rest arg)"
  by (simp add: matching_def map_filter_simps split: option.splits)

lemma find_opt_None_iff: "find_opt opts arg = None \<longleftrightarrow> matching opts arg = []"
  by (induction opts) (auto simp: matching_Cons split: option.splits)

lemma process_gopt_loop_fire_all:
  "process_gopt_loop sscanf ctx arg ty (find_opt opts arg) = fire_all sscanf ctx arg ty (matching opts arg)"
proof (induction opts arbitrary: ctx)
  case Nil
  then show ?case by simp
next
  case (Cons opt rest)
  show ?case
  proof (cases "match_template (templ opt) arg")
    case None
    with Cons show ?thesis by (simp add: matching_Cons)
  next
    case (Some sep)
    with Cons show ?thesis
      by (simp add: matching_Cons process_gopt_loop_Some split: sum.splits)
  qed
qed

text \<open>A callback that keeps everything and counts its calls in the record, at offset 100.\<close>

definition count_calls :: fuse_opt_proc_t where
  "count_calls = (\<lambda>d a k out.
     (1, d(100 \<mapsto> IntCell (case d 100 of Some (IntCell n) \<Rightarrow> n + 1 | _ \<Rightarrow> 1)), out))"

text \<open>
  Claim C5, as amended. A token is looked up in the table when \<^verbatim>\<open>process_one\<close> hands it
  to \<^verbatim>\<open>process_gopt\<close>: a flag-style token outside the positional region, and each
  sub-option of a group (\<^verbatim>\<open>-ovalue\<close>, or \<^verbatim>\<open>-o\<close> and the token after it), in order.
  \<^verbatim>\<open>process_gopt\<close> finds the first matching entry, processes it, and resumes the scan at
  the entry after it: every entry of the table that matches the token is processed
  exactly once, in table order (up to the first failure), and the token goes to the
  callback under the key for unknown options only when no entry matches. A positional
  token is not looked up: it goes to the callback under the key NONOPT, whatever the table
  holds. With an entry that writes a field and an entry that carries a callback key, both
  for \<^verbatim>\<open>debug\<close>, one sub-option \<^verbatim>\<open>debug\<close> writes the field once and calls the callback
  once.
\<close>

theorem every_matching_entry_fires_once:
  "process_gopt sscanf ctx arg ty =
     (if matching (in_opt ctx) arg = [] then call_proc ctx arg FUSE_OPT_KEY_OPT ty
      else fire_all sscanf ctx arg ty (matching (in_opt ctx) arg))
   \<and> (tmp_nonopt ctx = 0 \<and> chr_at (argv_at (in_args ctx) (tmp_argctr ctx)) 0 = CHR ''-'' \<and>
      chr_at (argv_at (in_args ctx) (tmp_argctr ctx)) 1 \<noteq> CHR ''o'' \<and>
      \<not> (chr_at (argv_at (in_args ctx) (tmp_argctr ctx)) 1 = CHR ''-'' \<and>
         chr_at (argv_at (in_args ctx) (tmp_argctr ctx)) 2 = CHR 0x00) \<longrightarrow>
      process_one sscanf ctx =
        process_gopt sscanf ctx (argv_at (in_args ctx) (tmp_argctr ctx)) GOPT_FLAG)
   \<and> (tmp_nonopt ctx = 0 \<and> chr_at (argv_at (in_args ctx) (tmp_argctr ctx)) 0 = CHR ''-'' \<and>
      chr_at (argv_at (in_args ctx) (tmp_argctr ctx)) 1 = CHR ''o'' \<and>
      chr_at (argv_at (in_args ctx) (tmp_argctr ctx)) 2 \<noteq> CHR 0x00 \<longrightarrow>
      process_one sscanf ctx =
        dispatch_all sscanf ctx
          (decode_optgroup [] (drop 2 (argv_at (in_args ctx) (tmp_argctr ctx)))))
   \<and> (tmp_nonopt ctx = 0 \<and> chr_at (argv_at (in_args ctx) (tmp_argctr ctx)) 0 = CHR ''-'' \<and>
      chr_at (argv_at (in_args ctx) (tmp_argctr ctx)) 1 = CHR ''o'' \<and>
      chr_at (argv_at (in_args ctx) (tmp_argctr ctx)) 2 = CHR 0x00 \<and>
      tmp_argctr ctx + 1 < argc (in_args ctx) \<longrightarrow>
      process_one sscanf ctx =
        dispatch_all sscanf (ctx\<lparr>tmp_argctr := tmp_argctr ctx + 1\<rparr>)
          (decode_optgroup [] (argv_at (in_args ctx) (tmp_argctr ctx + 1))))
   \<and> dispatch_all sscanf ctx (x # xs) =
       (case process_gopt sscanf ctx x GOPT_OPTION of
          Inl e \<Rightarrow> Inl e
        | Inr ctx' \<Rightarrow> dispatch_all sscanf ctx' xs)
   \<and> (tmp_nonopt ctx \<noteq> 0 \<or> chr_at (argv_at (in_args ctx) (tmp_argctr ctx)) 0 \<noteq> CHR ''-'' \<longrightarrow>
      process_one sscanf ctx =
        call_proc ctx (argv_at (in_args ctx) (tmp_argctr ctx)) FUSE_OPT_KEY_NONOPT GOPT_FLAG)"
proof -
  have "process_gopt sscanf ctx arg ty =
     (if matching (in_opt ctx) arg = [] then call_proc ctx arg FUSE_OPT_KEY_OPT ty
      else fire_all sscanf ctx arg ty (matching (in_opt ctx) arg))"
  proof (cases "find_opt (in_opt ctx) arg")
    case None
    then have "matching (in_opt ctx) arg = []" by (simp add: find_opt_None_iff)
    with None show ?thesis by (simp add: process_gopt_def)
  next
    case (Some m)
    then have "matching (in_opt ctx) arg \<noteq> []" by (simp add: find_opt_None_iff[symmetric])
    with Some show ?thesis
      using process_gopt_loop_fire_all[of sscanf ctx arg ty "in_opt ctx"]
      by (simp add: process_gopt_def)
  qed
  then show ?thesis
    by (auto simp: process_one_def Let_def process_one_optgroup_dispatch_all)
qed

text \<open>
  Claim C5 as stated fails for a positional token: with the same two entries for
  \<^verbatim>\<open>debug\<close>, both of which match it, the token \<^verbatim>\<open>debug\<close> of \<^verbatim>\<open>prog debug\<close> fires neither:
  the field at offset 0 is not written, and the callback is called once, with the key
  NONOPT.
\<close>

theorem positional_token_fires_no_entry:
  "fuse_opt_parse (\<lambda>_ _. None) (Some (FUSE_ARGS_INIT [''prog'', ''debug''])) Map.empty
     [\<lparr>templ = ''debug'', offset = 0, opt_value = 1\<rparr>, FUSE_OPT_KEY ''debug'' 7]
     (Some count_calls)
   = Some (0, Some \<lparr>argc = 2, argv = Some [''prog'', ''debug''], allocated = 1\<rparr>,
           [100 \<mapsto> IntCell 1])
   \<and> trace (final (fuse_opt_parse_ctx (\<lambda>_ _. None) (FUSE_ARGS_INIT [''prog'', ''debug'']) Map.empty
        [\<lparr>templ = ''debug'', offset = 0, opt_value = 1\<rparr>, FUSE_OPT_KEY ''debug'' 7]
        (Some count_calls)))
     = [Called ''debug'' FUSE_OPT_KEY_NONOPT 1, Kept GOPT_FLAG ''debug'' FUSE_OPT_KEY_NONOPT]
   \<and> map snd (matching [\<lparr>templ = ''debug'', offset = 0, opt_value = 1\<rparr>, FUSE_OPT_KEY ''debug'' 7]
        ''debug'') = [0, 0]"
  by (simp add: eval_defs final_def count_calls_def matching_Cons)

theorem every_matching_entry_fires_once_witness:
  "process_gopt (\<lambda>_ _. None)
     ((witness_ctx (Some count_calls))
        \<lparr>in_opt := [\<lparr>templ = ''debug'', offset = 0, opt_value = 1\<rparr>, FUSE_OPT_KEY ''debug'' 7]\<rparr>)
     ''debug'' GOPT_OPTION
   = Inr ((witness_ctx (Some count_calls))
        \<lparr>in_opt := [\<lparr>templ = ''debug'', offset = 0, opt_value = 1\<rparr>, FUSE_OPT_KEY ''debug'' 7],
         inout_data := [0 \<mapsto> IntCell 1, 100 \<mapsto> IntCell 1],
         tmp_opts := Some ''debug'',
         trace := [Called ''debug'' 7 1, Kept GOPT_OPTION ''debug'' 7]\<rparr>)
   \<and> process_one (\<lambda>_ _. None) (witness_ctx (Some count_calls))
     = process_gopt (\<lambda>_ _. None) (witness_ctx (Some count_calls)) ''-f'' GOPT_FLAG
   \<and> process_one (\<lambda>_ _. None)
       ((witness_ctx (Some count_calls))\<lparr>in_args := FUSE_ARGS_INIT [''prog'', ''-oa,b'']\<rparr>)
     = dispatch_all (\<lambda>_ _. None)
         ((witness_ctx (Some count_calls))\<lparr>in_args := FUSE_ARGS_INIT [''prog'', ''-oa,b'']\<rparr>)
         [''a'', ''b'']
   \<and> process_one (\<lambda>_ _. None)
       ((witness_ctx (Some count_calls))\<lparr>in_args := FUSE_ARGS_INIT [''prog'', ''-o'', ''a,b'']\<rparr>)
     = dispatch_all (\<lambda>_ _. None)
         ((witness_ctx (Some count_calls))
            \<lparr>in_args := FUSE_ARGS_INIT [''prog'', ''-o'', ''a,b''], tmp_argctr := 2\<rparr>)
         [''a'', ''b'']
   \<and> process_one (\<lambda>_ _. None)
       ((witness_ctx (Some count_calls))\<lparr>in_args := FUSE_ARGS_INIT [''prog'', ''debug'']\<rparr>)
     = call_proc ((witness_ctx (Some count_calls))\<lparr>in_args := FUSE_ARGS_INIT [''prog'', ''debug'']\<rparr>)
         ''debug'' FUSE_OPT_KEY_NONOPT GOPT_FLAG"
proof -
  let ?s = "(\<lambda>_ _. None) :: sscanf_t"
  let ?c = "witness_ctx (Some count_calls)"
  let ?t = "[\<lparr>templ = ''debug'', offset = 0, opt_value = 1\<rparr>, FUSE_OPT_KEY ''debug'' 7]"
  have 1: "process_gopt ?s (?c\<lparr>in_opt := ?t\<rparr>) ''debug'' GOPT_OPTION
   = Inr (?c\<lparr>in_opt := ?t, inout_data := [0 \<mapsto> IntCell 1, 100 \<mapsto> IntCell 1],
             tmp_opts := Some ''debug'',
             trace := [Called ''debug'' 7 1, Kept GOPT_OPTION ''debug'' 7]\<rparr>)"
    using every_matching_entry_fires_once[where sscanf = ?s and ctx = "?c\<lparr>in_opt := ?t\<rparr>"
        and arg = "''debug''" and ty = GOPT_OPTION]
    by (simp add: matching_Cons witness_ctx_def process_gopt_body_def count_calls_def eval_defs)
  have 2: "process_one ?s ?c = process_gopt ?s ?c ''-f'' GOPT_FLAG"
    using every_matching_entry_fires_once[where sscanf = ?s and ctx = ?c]
    by (simp add: witness_ctx_def FUSE_ARGS_INIT_def argv_at_def chr_at_def)
  have 3: "process_one ?s (?c\<lparr>in_args := FUSE_ARGS_INIT [''prog'', ''-oa,b'']\<rparr>)
     = dispatch_all ?s (?c\<lparr>in_args := FUSE_ARGS_INIT [''prog'', ''-oa,b'']\<rparr>) [''a'', ''b'']"
    using every_matching_entry_fires_once[where sscanf = ?s
        and ctx = "?c\<lparr>in_args := FUSE_ARGS_INIT [''prog'', ''-oa,b'']\<rparr>"]
    by (simp add: witness_ctx_def FUSE_ARGS_INIT_def argv_at_def chr_at_def decode_optgroup.simps
        cstring_def)
  have 4: "process_one ?s (?c\<lparr>in_args := FUSE_ARGS_INIT [''prog'', ''-o'', ''a,b'']\<rparr>)
     = dispatch_all ?s
         (?c\<lparr>in_args := FUSE_ARGS_INIT [''prog'', ''-o'', ''a,b''], tmp_argctr := 2\<rparr>) [''a'', ''b'']"
    using every_matching_entry_fires_once[where sscanf = ?s
        and ctx = "?c\<lparr>in_args := FUSE_ARGS_INIT [''prog'', ''-o'', ''a,b'']\<rparr>"]
    by (simp add: witness_ctx_def FUSE_ARGS_INIT_def argv_at_def chr_at_def decode_optgroup.simps
        cstring_def)
  have 5: "process_one ?s (?c\<lparr>in_args := FUSE_ARGS_INIT [''prog'', ''debug'']\<rparr>)
     = call_proc (?c\<lparr>in_args := FUSE_ARGS_INIT [''prog'', ''debug'']\<rparr>)
         ''debug'' FUSE_OPT_KEY_NONOPT GOPT_FLAG"
    using every_matching_entry_fires_once[where sscanf = ?s
        and ctx = "?c\<lparr>in_args := FUSE_ARGS_INIT [''prog'', ''debug'']\<rparr>"]
    by (simp add: witness_ctx_def FUSE_ARGS_INIT_def argv_at_def chr_at_def)
  from 1 2 3 4 5 show ?thesis by blast
qed

section \<open>A value that is missing\<close>

text \<open>
  \<open>value_elsewhere\<close>: the test of \<^verbatim>\<open>process_gopt\<close> for an entry whose template has a
  space separator while the argument ends at the separator, so that the value is the
  next input token. \<open>takes\<close>: how many of the entries of a list take a value in this
  way; each of them advances the input cursor by one token. \<open>demand\<close>: how many input
  tokens the look-up of an argument takes as values, and \<open>demand_all\<close> the same for a
  list of sub-options.
\<close>

definition value_elsewhere :: "string \<Rightarrow> fuse_opt \<times> nat \<Rightarrow> bool" where
  "value_elsewhere arg m =
     (case m of (opt, sep_idx) \<Rightarrow>
        sep_idx \<noteq> 0 \<and> chr_at (templ opt) sep_idx = CHR '' '' \<and> chr_at arg sep_idx = CHR 0x00)"

definition takes :: "string \<Rightarrow> (fuse_opt \<times> nat) list \<Rightarrow> nat" where
  "takes arg ms = length (filter (value_elsewhere arg) ms)"

definition demand :: "fuse_opt list \<Rightarrow> string \<Rightarrow> nat" where
  "demand opts arg = takes arg (matching opts arg)"

definition demand_all :: "fuse_opt list \<Rightarrow> string list \<Rightarrow> nat" where
  "demand_all opts xs = sum_list (map (demand opts) xs)"

text \<open>
  The parse stands, outside the positional region, at a token that needs more input
  tokens than are left: a bare \<^verbatim>\<open>-o\<close> that is the last token; or a flag-style token, or a
  group (\<^verbatim>\<open>-ovalue\<close>, or \<^verbatim>\<open>-o\<close> and its value), whose look-ups take more tokens as values
  than follow it.
\<close>

definition missing_value :: "fuse_opt_context \<Rightarrow> bool" where
  "missing_value ctx =
     (let arg = argv_at (in_args ctx) (tmp_argctr ctx);
          left = argc (in_args ctx) - tmp_argctr ctx - 1
      in tmp_argctr ctx < argc (in_args ctx) \<and> tmp_nonopt ctx = 0 \<and> chr_at arg 0 = CHR ''-'' \<and>
         (if chr_at arg 1 = CHR ''o'' then
            (if chr_at arg 2 \<noteq> CHR 0x00 then
               left < int (demand_all (in_opt ctx) (decode_optgroup [] (drop 2 arg)))
             else
               left = 0 \<or>
               left - 1 <
                 int (demand_all (in_opt ctx)
                        (decode_optgroup [] (argv_at (in_args ctx) (tmp_argctr ctx + 1)))))
          else
            (if chr_at arg 1 = CHR ''-'' \<and> chr_at arg 2 = CHR 0x00 then False
             else left < int (demand (in_opt ctx) arg))))"

text \<open>The context after exactly \<open>n\<close> successful rounds of the loop of \<^verbatim>\<open>fuse_opt_parse\<close>.\<close>

fun loop_steps :: "sscanf_t \<Rightarrow> nat \<Rightarrow> fuse_opt_context \<Rightarrow> fuse_opt_context option" where
  "loop_steps sscanf 0 ctx = Some ctx"
| "loop_steps sscanf (Suc n) ctx =
     (if tmp_argctr ctx < argc (in_args ctx) then
        (case process_one sscanf ctx of
           Inl e \<Rightarrow> None
         | Inr ctx' \<Rightarrow> loop_steps sscanf n (ctx'\<lparr>tmp_argctr := tmp_argctr ctx' + 1\<rparr>))
      else None)"

lemma process_gopt_fire_all:
  "process_gopt sscanf ctx arg ty =
     (if matching (in_opt ctx) arg = [] then call_proc ctx arg FUSE_OPT_KEY_OPT ty
      else fire_all sscanf ctx arg ty (matching (in_opt ctx) arg))"
proof (cases "find_opt (in_opt ctx) arg")
  case None
  then have "matching (in_opt ctx) arg = []" by (simp add: find_opt_None_iff)
  with None show ?thesis by (simp add: process_gopt_def)
next
  case (Some m)
  then have "matching (in_opt ctx) arg \<noteq> []" by (simp add: find_opt_None_iff[symmetric])
  with Some show ?thesis
    using process_gopt_loop_fire_all[of sscanf ctx arg ty "in_opt ctx"]
    by (simp add: process_gopt_def)
qed

text \<open>What a step leaves of the cursor, the input and the table.\<close>

definition same_input :: "fuse_opt_context \<Rightarrow> fuse_opt_context \<Rightarrow> bool" where
  "same_input ctx ctx' \<longleftrightarrow> in_args ctx' = in_args ctx \<and> in_opt ctx' = in_opt ctx"

lemma call_proc_keep_argctr:
  "call_proc_keep ctx arg key ty = Inr ctx' \<Longrightarrow>
     tmp_argctr ctx' = tmp_argctr ctx \<and> same_input ctx ctx'"
  by (auto simp: call_proc_keep_def same_input_def split: fuse_gopt_type.splits sum.splits)

lemma call_proc_argctr:
  "call_proc ctx arg key ty = Inr ctx' \<Longrightarrow>
     tmp_argctr ctx' = tmp_argctr ctx \<and> same_input ctx ctx'"
  by (auto simp: call_proc_def Let_def same_input_def split: if_splits option.splits prod.splits
      dest!: call_proc_keep_argctr)

lemma call_proc_error:
  "call_proc ctx arg key ty = Inl (e, c) \<Longrightarrow> e = CallbackAbort \<or> e = AssertionFailed"
  by (auto simp: call_proc_def Let_def split: if_splits option.splits prod.splits
      dest!: call_proc_keep_fails)

lemma process_opt_argctr:
  "process_opt sscanf ctx optspec sep arg ty = Inr ctx' \<Longrightarrow>
     tmp_argctr ctx' = tmp_argctr ctx \<and> same_input ctx ctx'"
  by (auto simp: process_opt_def Let_def same_input_def split: if_splits sum.splits
      dest!: call_proc_argctr)

lemma process_gopt_body_argctr:
  assumes "process_gopt_body sscanf ctx arg ty opt sep_idx = Inr ctx'"
  shows "tmp_argctr ctx' = tmp_argctr ctx + (if value_elsewhere arg (opt, sep_idx) then 1 else 0) \<and>
         same_input ctx ctx' \<and>
         (value_elsewhere arg (opt, sep_idx) \<longrightarrow> tmp_argctr ctx + 1 < argc (in_args ctx))"
proof (cases "value_elsewhere arg (opt, sep_idx)")
  case True
  with assms have lt: "tmp_argctr ctx + 1 < argc (in_args ctx)"
    and "process_opt sscanf (ctx\<lparr>tmp_argctr := tmp_argctr ctx + 1\<rparr>) opt sep_idx
           (take sep_idx arg @ argv_at (in_args ctx) (tmp_argctr ctx + 1)) ty = Inr ctx'"
    by (auto simp: process_gopt_body_def value_elsewhere_def split: if_splits)
  from process_opt_argctr[OF this(2)] True lt show ?thesis
    by (simp add: same_input_def)
next
  case False
  with assms have "process_opt sscanf ctx opt sep_idx arg ty = Inr ctx'"
    by (auto simp: process_gopt_body_def value_elsewhere_def split: if_splits)
  from process_opt_argctr[OF this] False show ?thesis by simp
qed

lemma process_gopt_body_missing:
  "value_elsewhere arg (opt, sep_idx) \<Longrightarrow> argc (in_args ctx) \<le> tmp_argctr ctx + 1 \<Longrightarrow>
   process_gopt_body sscanf ctx arg ty opt sep_idx = Inl (MissingArgument arg, ctx)"
  by (simp add: process_gopt_body_def value_elsewhere_def)

lemma takes_Cons:
  "takes arg (m # ms) = (if value_elsewhere arg m then 1 else 0) + takes arg ms"
  by (simp add: takes_def)

lemma fire_all_argctr:
  "fire_all sscanf ctx arg ty ms = Inr ctx' \<Longrightarrow>
     tmp_argctr ctx' = tmp_argctr ctx + int (takes arg ms) \<and> same_input ctx ctx'"
proof (induction ms arbitrary: ctx)
  case Nil
  then show ?case by (simp add: takes_def same_input_def)
next
  case (Cons m ms)
  obtain opt sep_idx where m: "m = (opt, sep_idx)" by (cases m)
  from Cons.prems m obtain c1 where
    b: "process_gopt_body sscanf ctx arg ty opt sep_idx = Inr c1" and
    f: "fire_all sscanf c1 arg ty ms = Inr ctx'"
    by (auto split: sum.splits)
  from process_gopt_body_argctr[OF b] Cons.IH[OF f] m show ?case
    by (auto simp: takes_Cons same_input_def)
qed

lemma fire_all_missing:
  "tmp_argctr ctx < argc (in_args ctx) \<Longrightarrow>
   argc (in_args ctx) - tmp_argctr ctx - 1 < int (takes arg ms) \<Longrightarrow>
   \<exists>e c. fire_all sscanf ctx arg ty ms = Inl (e, c)"
proof (induction ms arbitrary: ctx)
  case Nil
  then show ?case by (simp add: takes_def)
next
  case (Cons m ms)
  obtain opt sep_idx where m: "m = (opt, sep_idx)" by (cases m)
  show ?case
  proof (cases "process_gopt_body sscanf ctx arg ty opt sep_idx")
    case (Inl x)
    with m show ?thesis by (cases x) simp
  next
    case (Inr c1)
    from process_gopt_body_argctr[OF Inr] Cons.prems m
    have "tmp_argctr c1 < argc (in_args c1)"
      and "argc (in_args c1) - tmp_argctr c1 - 1 < int (takes arg ms)"
      by (auto simp: takes_Cons same_input_def split: if_splits)
    from Cons.IH[OF this] Inr m show ?thesis by simp
  qed
qed

lemma process_gopt_argctr:
  "process_gopt sscanf ctx arg ty = Inr ctx' \<Longrightarrow>
     tmp_argctr ctx' = tmp_argctr ctx + int (demand (in_opt ctx) arg) \<and> same_input ctx ctx'"
  unfolding demand_def
  by (subst (asm) process_gopt_fire_all)
    (auto split: if_splits dest: call_proc_argctr fire_all_argctr simp: takes_def)

lemma process_gopt_missing:
  assumes "tmp_argctr ctx < argc (in_args ctx)"
    and "argc (in_args ctx) - tmp_argctr ctx - 1 < int (demand (in_opt ctx) arg)"
  shows "\<exists>e c. process_gopt sscanf ctx arg ty = Inl (e, c)"
proof -
  from assms have "matching (in_opt ctx) arg \<noteq> []"
    by (auto simp: demand_def takes_def)
  with fire_all_missing[OF assms(1) assms(2)[unfolded demand_def], of sscanf ty] show ?thesis
    by (simp add: process_gopt_fire_all)
qed

lemma process_gopt_argctr_lt:
  assumes "process_gopt sscanf ctx arg ty = Inr ctx'" and "tmp_argctr ctx < argc (in_args ctx)"
  shows "tmp_argctr ctx' < argc (in_args ctx')"
proof (rule ccontr)
  assume "\<not> tmp_argctr ctx' < argc (in_args ctx')"
  with process_gopt_argctr[OF assms(1)]
  have "argc (in_args ctx) - tmp_argctr ctx - 1 < int (demand (in_opt ctx) arg)"
    by (simp add: same_input_def)
  from process_gopt_missing[OF assms(2) this, of sscanf ty] assms(1) show False by simp
qed

lemma dispatch_all_missing:
  "tmp_argctr ctx < argc (in_args ctx) \<Longrightarrow>
   argc (in_args ctx) - tmp_argctr ctx - 1 < int (demand_all (in_opt ctx) xs) \<Longrightarrow>
   \<exists>e c. dispatch_all sscanf ctx xs = Inl (e, c)"
proof (induction xs arbitrary: ctx)
  case Nil
  then show ?case by (simp add: demand_all_def)
next
  case (Cons x xs)
  show ?case
  proof (cases "process_gopt sscanf ctx x GOPT_OPTION")
    case (Inl y)
    then show ?thesis by (cases y) simp
  next
    case (Inr c1)
    from process_gopt_argctr[OF Inr] Cons.prems
    have "argc (in_args c1) - tmp_argctr c1 - 1 < int (demand_all (in_opt c1) xs)"
      by (simp add: demand_all_def same_input_def)
    from Cons.IH[OF process_gopt_argctr_lt[OF Inr Cons.prems(1)] this] Inr show ?thesis by simp
  qed
qed

lemma process_one_missing:
  assumes "missing_value ctx"
  shows "\<exists>e c. process_one sscanf ctx = Inl (e, c)"
proof -
  let ?arg = "argv_at (in_args ctx) (tmp_argctr ctx)"
  from assms have n: "tmp_nonopt ctx = 0" and dash: "chr_at ?arg 0 = CHR ''-''"
    and lt: "tmp_argctr ctx < argc (in_args ctx)"
    by (simp_all add: missing_value_def Let_def)
  show ?thesis
  proof (cases "chr_at ?arg 1 = CHR ''o''")
    case o: True
    show ?thesis
    proof (cases "chr_at ?arg 2 \<noteq> CHR 0x00")
      case True
      with assms o have "argc (in_args ctx) - tmp_argctr ctx - 1
          < int (demand_all (in_opt ctx) (decode_optgroup [] (drop 2 ?arg)))"
        by (simp add: missing_value_def Let_def)
      from dispatch_all_missing[OF lt this, of sscanf] n dash o True show ?thesis
        by (simp add: process_one_def Let_def process_one_optgroup_dispatch_all)
    next
      case False
      show ?thesis
      proof (cases "tmp_argctr ctx + 1 < argc (in_args ctx)")
        case True
        with assms o False have "argc (in_args ctx) - tmp_argctr ctx - 1 - 1
            < int (demand_all (in_opt ctx)
                     (decode_optgroup [] (argv_at (in_args ctx) (tmp_argctr ctx + 1))))"
          by (auto simp: missing_value_def Let_def)
        with True have "\<exists>e c. dispatch_all sscanf (ctx\<lparr>tmp_argctr := tmp_argctr ctx + 1\<rparr>)
                (decode_optgroup [] (argv_at (in_args ctx) (tmp_argctr ctx + 1))) = Inl (e, c)"
          by (intro dispatch_all_missing) simp_all
        with n dash o False True show ?thesis
          by (simp add: process_one_def Let_def process_one_optgroup_dispatch_all)
      next
        case nolast: False
        with n dash o False show ?thesis
          by (simp add: process_one_def Let_def)
      qed
    qed
  next
    case no: False
    with assms have sep: "\<not> (chr_at ?arg 1 = CHR ''-'' \<and> chr_at ?arg 2 = CHR 0x00)"
      and l: "argc (in_args ctx) - tmp_argctr ctx - 1 < int (demand (in_opt ctx) ?arg)"
      by (simp_all add: missing_value_def Let_def split: if_splits)
    from process_gopt_missing[OF lt l, of sscanf GOPT_FLAG] n dash no sep show ?thesis
      by (auto simp: process_one_def Let_def)
  qed
qed

lemma fuse_opt_parse_loop_steps:
  "loop_steps sscanf n ctx = Some ctx' \<Longrightarrow>
   fuse_opt_parse_loop sscanf ctx = fuse_opt_parse_loop sscanf ctx'"
proof (induction n arbitrary: ctx)
  case 0
  then show ?case by simp
next
  case (Suc n)
  from Suc.prems obtain c1 where lt: "tmp_argctr ctx < argc (in_args ctx)"
    and p: "process_one sscanf ctx = Inr c1"
    and l: "loop_steps sscanf n (c1\<lparr>tmp_argctr := tmp_argctr c1 + 1\<rparr>) = Some ctx'"
    by (auto split: if_splits sum.splits)
  from Suc.IH[OF l] lt p show ?case
    by (subst fuse_opt_parse_loop.simps) simp
qed

lemma missing_value_left: "missing_value ctx \<Longrightarrow> tmp_argctr ctx < argc (in_args ctx)"
  by (simp add: missing_value_def Let_def)

lemma process_one_bare_o:
  "tmp_nonopt ctx = 0 \<Longrightarrow> argv_at (in_args ctx) (tmp_argctr ctx) = ''-o'' \<Longrightarrow>
   argc (in_args ctx) \<le> tmp_argctr ctx + 1 \<Longrightarrow>
   process_one sscanf ctx = Inl (MissingArgument ''-o'', ctx)"
  by (simp add: process_one_def chr_at_def)

lemma process_one_first_entry:
  assumes "tmp_nonopt ctx = 0" and "chr_at (argv_at (in_args ctx) (tmp_argctr ctx)) 0 = CHR ''-''"
    and "chr_at (argv_at (in_args ctx) (tmp_argctr ctx)) 1 \<noteq> CHR ''o''"
    and "\<not> (chr_at (argv_at (in_args ctx) (tmp_argctr ctx)) 1 = CHR ''-'' \<and>
           chr_at (argv_at (in_args ctx) (tmp_argctr ctx)) 2 = CHR 0x00)"
    and "matching (in_opt ctx) (argv_at (in_args ctx) (tmp_argctr ctx)) = m # ms"
    and "value_elsewhere (argv_at (in_args ctx) (tmp_argctr ctx)) m"
    and "argc (in_args ctx) \<le> tmp_argctr ctx + 1"
  shows "process_one sscanf ctx =
           Inl (MissingArgument (argv_at (in_args ctx) (tmp_argctr ctx)), ctx)"
proof -
  let ?arg = "argv_at (in_args ctx) (tmp_argctr ctx)"
  obtain opt sep_idx where m: "m = (opt, sep_idx)" by (cases m)
  from assms(1-4) have "process_one sscanf ctx = process_gopt sscanf ctx ?arg GOPT_FLAG"
    by (auto simp: process_one_def Let_def)
  also have "\<dots> = fire_all sscanf ctx ?arg GOPT_FLAG (m # ms)"
    using assms(5) by (simp add: process_gopt_fire_all)
  also have "\<dots> = Inl (MissingArgument ?arg, ctx)"
    using process_gopt_body_missing[OF assms(6)[unfolded m] assms(7), of sscanf GOPT_FLAG] m
    by simp
  finally show ?thesis .
qed

text \<open>
  Claim C8, as amended. Whenever the parse reaches, outside the positional region, a bare
  \<^verbatim>\<open>-o\<close> that is the last input token, or a flag-style token or a group whose look-ups
  take more input tokens as values than follow it (every matching entry with a space
  separator and nothing after the stem in the token takes the next input token), the
  parse does not succeed and hands back no output vector: \<^verbatim>\<open>fuse_opt_parse\<close> returns
  \<open>-1\<close> and the caller's \<^verbatim>\<open>*args\<close> is left as it was, unless an \<^verbatim>\<open>assert\<close> fails first,
  which aborts the process. For the bare \<^verbatim>\<open>-o\<close>, and for a flag-style token that is the
  last token and whose first matching entry takes its value from the next token, the
  failure is the missing argument. A positional token is not looked up: it never fails
  with a missing argument.
\<close>

theorem missing_value_fails:
  "(argv args \<noteq> None \<and> argc args \<noteq> 0 \<and>
    fuse_opt_parse_init args d opts proc = Inr cinit \<and>
    loop_steps sscanf n cinit = Some ctx \<and> missing_value ctx \<longrightarrow>
      (\<exists>e c. process_one sscanf ctx = Inl (e, c) \<and>
             fuse_opt_parse_ctx sscanf args d opts proc = Inl (e, c) \<and>
             fuse_opt_parse sscanf (Some args) d opts proc =
               (if e = AssertionFailed then None else Some (-1, Some args, inout_data c)) \<and>
             (argv_at (in_args ctx) (tmp_argctr ctx) = ''-o'' \<and>
              argc (in_args ctx) \<le> tmp_argctr ctx + 1 \<longrightarrow>
                e = MissingArgument ''-o'' \<and> c = ctx) \<and>
             (chr_at (argv_at (in_args ctx) (tmp_argctr ctx)) 1 \<noteq> CHR ''o'' \<and>
              argc (in_args ctx) \<le> tmp_argctr ctx + 1 \<and>
              (\<exists>m ms. matching (in_opt ctx) (argv_at (in_args ctx) (tmp_argctr ctx)) = m # ms \<and>
                       value_elsewhere (argv_at (in_args ctx) (tmp_argctr ctx)) m) \<longrightarrow>
                e = MissingArgument (argv_at (in_args ctx) (tmp_argctr ctx)) \<and> c = ctx)))
   \<and> (tmp_nonopt ctx \<noteq> 0 \<or> chr_at (argv_at (in_args ctx) (tmp_argctr ctx)) 0 \<noteq> CHR ''-'' \<longrightarrow>
        process_one sscanf ctx =
          call_proc ctx (argv_at (in_args ctx) (tmp_argctr ctx)) FUSE_OPT_KEY_NONOPT GOPT_FLAG \<and>
        (\<forall>e c. process_one sscanf ctx = Inl (e, c) \<longrightarrow> e = CallbackAbort \<or> e = AssertionFailed))"
proof -
  let ?arg = "argv_at (in_args ctx) (tmp_argctr ctx)"
  have A: "\<exists>e c. process_one sscanf ctx = Inl (e, c) \<and>
             fuse_opt_parse_ctx sscanf args d opts proc = Inl (e, c) \<and>
             fuse_opt_parse sscanf (Some args) d opts proc =
               (if e = AssertionFailed then None else Some (-1, Some args, inout_data c)) \<and>
             (?arg = ''-o'' \<and> argc (in_args ctx) \<le> tmp_argctr ctx + 1 \<longrightarrow>
                e = MissingArgument ''-o'' \<and> c = ctx) \<and>
             (chr_at ?arg 1 \<noteq> CHR ''o'' \<and> argc (in_args ctx) \<le> tmp_argctr ctx + 1 \<and>
              (\<exists>m ms. matching (in_opt ctx) ?arg = m # ms \<and> value_elsewhere ?arg m) \<longrightarrow>
                e = MissingArgument ?arg \<and> c = ctx)"
    if g: "argv args \<noteq> None" "argc args \<noteq> 0"
      and i: "fuse_opt_parse_init args d opts proc = Inr cinit"
      and l: "loop_steps sscanf n cinit = Some ctx" and mv: "missing_value ctx"
  proof -
    from process_one_missing[OF mv, of sscanf] obtain e c
      where e: "process_one sscanf ctx = Inl (e, c)"
      by auto
    with missing_value_left[OF mv] have "fuse_opt_parse_loop sscanf ctx = Inl (e, c)"
      by (subst fuse_opt_parse_loop.simps) simp
    with fuse_opt_parse_loop_steps[OF l] have "fuse_opt_parse_loop sscanf cinit = Inl (e, c)"
      by simp
    with g i have run: "fuse_opt_parse_ctx sscanf args d opts proc = Inl (e, c)"
      and res: "fuse_opt_parse sscanf (Some args) d opts proc =
               (if e = AssertionFailed then None else Some (-1, Some args, inout_data c))"
      by (auto simp: fuse_opt_parse_def fuse_opt_parse_ctx_def)
    from mv have n: "tmp_nonopt ctx = 0" and dash: "chr_at ?arg 0 = CHR ''-''"
      by (simp_all add: missing_value_def Let_def)
    have o: "e = MissingArgument ''-o'' \<and> c = ctx"
      if "?arg = ''-o''" "argc (in_args ctx) \<le> tmp_argctr ctx + 1"
      using process_one_bare_o[OF n that, of sscanf] e by simp
    have f: "e = MissingArgument ?arg \<and> c = ctx"
      if no: "chr_at ?arg 1 \<noteq> CHR ''o''" and last: "argc (in_args ctx) \<le> tmp_argctr ctx + 1"
        and m: "matching (in_opt ctx) ?arg = m # ms" "value_elsewhere ?arg m" for m ms
    proof -
      from mv no have "\<not> (chr_at ?arg 1 = CHR ''-'' \<and> chr_at ?arg 2 = CHR 0x00)"
        by (auto simp: missing_value_def Let_def split: if_splits)
      from process_one_first_entry[OF n dash no this m last, of sscanf] e show ?thesis by simp
    qed
    from e run res o f show ?thesis by blast
  qed
  have B: "process_one sscanf ctx = call_proc ctx ?arg FUSE_OPT_KEY_NONOPT GOPT_FLAG \<and>
        (\<forall>e c. process_one sscanf ctx = Inl (e, c) \<longrightarrow> e = CallbackAbort \<or> e = AssertionFailed)"
    if "tmp_nonopt ctx \<noteq> 0 \<or> chr_at ?arg 0 \<noteq> CHR ''-''"
  proof -
    from that have "process_one sscanf ctx = call_proc ctx ?arg FUSE_OPT_KEY_NONOPT GOPT_FLAG"
      by (auto simp: process_one_def Let_def)
    then show ?thesis by (auto dest: call_proc_error)
  qed
  from A B show ?thesis by blast
qed

text \<open>
  Claim C8 as stated fails for positional tokens, which are never looked up in the
  table: with the entry \<^verbatim>\<open>bar %d\<close> the input \<^verbatim>\<open>prog bar\<close> parses successfully although
  \<^verbatim>\<open>bar\<close> matches the template and no token follows; and after \<^verbatim>\<open>--\<close> a trailing
  \<^verbatim>\<open>-o\<close> is a positional token too. And the parse can end in a failed \<^verbatim>\<open>assert\<close> before
  the missing value is noticed: with a callback entry for \<^verbatim>\<open>--bar\<close> before the entry
  \<^verbatim>\<open>--bar %d\<close> and a callback that hands back an output vector that is not allocated,
  keeping the token aborts the process.
\<close>

theorem positional_token_is_not_looked_up:
  "fuse_opt_parse (\<lambda>_ _. None) (Some (FUSE_ARGS_INIT [''prog'', ''bar''])) Map.empty
     [\<lparr>templ = ''bar %d'', offset = 0, opt_value = 0\<rparr>] (Some (\<lambda>d a k out. (1, d, out)))
   = Some (0, Some \<lparr>argc = 2, argv = Some [''prog'', ''bar''], allocated = 1\<rparr>, Map.empty)
   \<and> match_template ''bar %d'' ''bar'' = Some 3
   \<and> fuse_opt_parse (\<lambda>_ _. None) (Some (FUSE_ARGS_INIT [''prog'', ''--'', ''-o''])) Map.empty
     [] (Some (\<lambda>d a k out. (1, d, out)))
   = Some (0, Some \<lparr>argc = 3, argv = Some [''prog'', ''--'', ''-o''], allocated = 1\<rparr>, Map.empty)
   \<and> fuse_opt_parse (\<lambda>_ _. None) (Some (FUSE_ARGS_INIT [''prog'', ''--bar''])) Map.empty
     [FUSE_OPT_KEY ''--bar'' 7, \<lparr>templ = ''--bar %d'', offset = 0, opt_value = 0\<rparr>]
     (Some (\<lambda>d a k out. (1, d, out\<lparr>allocated := 0\<rparr>)))
   = None"
  by (simp add: eval_defs)

theorem missing_value_fails_witness:
  "fuse_opt_parse (\<lambda>_ _. None) (Some (FUSE_ARGS_INIT [''prog'', ''a'', ''--bar''])) Map.empty
       [\<lparr>templ = ''--bar %d'', offset = 0, opt_value = 0\<rparr>] (Some (\<lambda>d a k out. (1, d, out)))
     = Some (-1, Some (FUSE_ARGS_INIT [''prog'', ''a'', ''--bar'']), Map.empty)
   \<and> (\<exists>dd. fuse_opt_parse (\<lambda>_ _. None)
          (Some (FUSE_ARGS_INIT [''prog'', ''-o'', ''bar,bar'', ''5''])) Map.empty
          [\<lparr>templ = ''bar %s'', offset = 0, opt_value = 0\<rparr>] (Some (\<lambda>d a k out. (1, d, out)))
        = Some (-1, Some (FUSE_ARGS_INIT [''prog'', ''-o'', ''bar,bar'', ''5'']), dd))
   \<and> (\<exists>c. fuse_opt_parse_ctx (\<lambda>_ _. None) (FUSE_ARGS_INIT [''prog'', ''-f'', ''-o'']) Map.empty
          [] (Some (\<lambda>d a k out. (1, d, out)))
        = Inl (MissingArgument ''-o'', c))
   \<and> process_one (\<lambda>_ _. None)
       ((witness_ctx (Some (\<lambda>d a k out. (1, d, out))))
          \<lparr>in_args := FUSE_ARGS_INIT [''prog'', ''bar''],
           in_opt := [\<lparr>templ = ''bar %d'', offset = 0, opt_value = 0\<rparr>]\<rparr>)
     = call_proc
         ((witness_ctx (Some (\<lambda>d a k out. (1, d, out))))
            \<lparr>in_args := FUSE_ARGS_INIT [''prog'', ''bar''],
             in_opt := [\<lparr>templ = ''bar %d'', offset = 0, opt_value = 0\<rparr>]\<rparr>)
         ''bar'' FUSE_OPT_KEY_NONOPT GOPT_FLAG"
proof -
  let ?p = "Some (\<lambda>(d::data) (a::string) (k::int) (out::fuse_args). (1::int, d, out))"
  let ?s = "(\<lambda>_ _. None) :: sscanf_t"
  let ?a1 = "FUSE_ARGS_INIT [''prog'', ''a'', ''--bar'']"
  let ?t1 = "[\<lparr>templ = ''--bar %d'', offset = 0, opt_value = 0\<rparr>]"
  have g1: "argv ?a1 \<noteq> None \<and> argc ?a1 \<noteq> 0" by (simp add: FUSE_ARGS_INIT_def)
  have "\<exists>c0 c. fuse_opt_parse_init ?a1 Map.empty ?t1 ?p = Inr c0 \<and> loop_steps ?s 1 c0 = Some c
          \<and> missing_value c \<and> inout_data c = Map.empty
          \<and> chr_at (argv_at (in_args c) (tmp_argctr c)) 1 \<noteq> CHR ''o''
          \<and> argc (in_args c) \<le> tmp_argctr c + 1
          \<and> (\<exists>m ms. matching (in_opt c) (argv_at (in_args c) (tmp_argctr c)) = m # ms \<and>
                     value_elsewhere (argv_at (in_args c) (tmp_argctr c)) m)"
    by (simp add: missing_value_def demand_def takes_def value_elsewhere_def matching_Cons eval_defs)
  then obtain c0 c where h1: "fuse_opt_parse_init ?a1 Map.empty ?t1 ?p = Inr c0"
    "loop_steps ?s 1 c0 = Some c" "missing_value c"
    and d1: "inout_data c = Map.empty"
    and f1: "chr_at (argv_at (in_args c) (tmp_argctr c)) 1 \<noteq> CHR ''o''"
      "argc (in_args c) \<le> tmp_argctr c + 1"
      "\<exists>m ms. matching (in_opt c) (argv_at (in_args c) (tmp_argctr c)) = m # ms \<and>
                     value_elsewhere (argv_at (in_args c) (tmp_argctr c)) m"
    by blast
  from missing_value_fails[where args = ?a1 and d = Map.empty and opts = ?t1 and proc = ?p
      and cinit = c0 and sscanf = ?s and n = 1 and ctx = c] g1 h1 f1 d1
  have 1: "fuse_opt_parse ?s (Some ?a1) Map.empty ?t1 ?p = Some (-1, Some ?a1, Map.empty)"
    by auto
  let ?a2 = "FUSE_ARGS_INIT [''prog'', ''-o'', ''bar,bar'', ''5'']"
  let ?t2 = "[\<lparr>templ = ''bar %s'', offset = 0, opt_value = 0\<rparr>]"
  have g2: "argv ?a2 \<noteq> None \<and> argc ?a2 \<noteq> 0" by (simp add: FUSE_ARGS_INIT_def)
  have "\<exists>c0. fuse_opt_parse_init ?a2 Map.empty ?t2 ?p = Inr c0 \<and> missing_value c0"
    by (simp add: missing_value_def demand_all_def demand_def takes_def value_elsewhere_def
        matching_Cons eval_defs decode_optgroup.simps)
  then obtain c0' where h2: "fuse_opt_parse_init ?a2 Map.empty ?t2 ?p = Inr c0'"
    "loop_steps ?s 0 c0' = Some c0'" "missing_value c0'" by auto
  have e2: "\<exists>c. fuse_opt_parse_ctx ?s ?a2 Map.empty ?t2 ?p = Inl (MissingArgument ''bar'', c)"
    by (simp add: eval_defs)
  from missing_value_fails[where args = ?a2 and d = Map.empty and opts = ?t2 and proc = ?p
      and cinit = c0' and sscanf = ?s and n = 0 and ctx = c0'] g2 h2 e2
  have 2: "\<exists>dd. fuse_opt_parse ?s (Some ?a2) Map.empty ?t2 ?p = Some (-1, Some ?a2, dd)"
    by auto
  let ?a3 = "FUSE_ARGS_INIT [''prog'', ''-f'', ''-o'']"
  have g3: "argv ?a3 \<noteq> None \<and> argc ?a3 \<noteq> 0" by (simp add: FUSE_ARGS_INIT_def)
  have "\<exists>c0 c. fuse_opt_parse_init ?a3 Map.empty [] ?p = Inr c0 \<and> loop_steps ?s 1 c0 = Some c
          \<and> missing_value c \<and> argv_at (in_args c) (tmp_argctr c) = ''-o''
          \<and> argc (in_args c) \<le> tmp_argctr c + 1"
    by (simp add: missing_value_def eval_defs)
  then obtain c03 c3 where h3: "fuse_opt_parse_init ?a3 Map.empty [] ?p = Inr c03"
    "loop_steps ?s 1 c03 = Some c3" "missing_value c3"
    and o3: "argv_at (in_args c3) (tmp_argctr c3) = ''-o''" "argc (in_args c3) \<le> tmp_argctr c3 + 1"
    by blast
  from missing_value_fails[where args = ?a3 and d = Map.empty and opts = "[]" and proc = ?p
      and cinit = c03 and sscanf = ?s and n = 1 and ctx = c3] g3 h3 o3
  have 3: "\<exists>c. fuse_opt_parse_ctx ?s ?a3 Map.empty [] ?p = Inl (MissingArgument ''-o'', c)"
    by auto
  let ?c4 = "(witness_ctx ?p)\<lparr>in_args := FUSE_ARGS_INIT [''prog'', ''bar''],
                               in_opt := [\<lparr>templ = ''bar %d'', offset = 0, opt_value = 0\<rparr>]\<rparr>"
  have 4: "process_one ?s ?c4 = call_proc ?c4 ''bar'' FUSE_OPT_KEY_NONOPT GOPT_FLAG"
    using missing_value_fails[where sscanf = ?s and ctx = ?c4]
    by (simp add: witness_ctx_def FUSE_ARGS_INIT_def argv_at_def chr_at_def)
  from 1 2 3 4 show ?thesis by blast
qed

section \<open>Parsing tokens that are all kept\<close>

text \<open>
  A callback that keeps every token: it never returns \<open>0\<close> or \<open>-1\<close> and it leaves the
  output vector alone. What it does to the record is not restricted. \<open>keeps p key\<close>: a
  token dispatched under \<open>key\<close> is kept, by the key KEEP or by the callback \<open>p\<close>.
\<close>

definition keeps_every_token :: "fuse_opt_proc_t \<Rightarrow> bool" where
  "keeps_every_token p \<longleftrightarrow>
     (\<forall>d a k out. fst (p d a k out) \<noteq> 0 \<and> fst (p d a k out) \<noteq> -1 \<and> snd (snd (p d a k out)) = out)"

definition keeps :: "fuse_opt_proc_t \<Rightarrow> int \<Rightarrow> bool" where
  "keeps p key \<longleftrightarrow>
     key \<noteq> FUSE_OPT_KEY_DISCARD \<and>
     (key = FUSE_OPT_KEY_KEEP \<or>
      (\<forall>d a out. fst (p d a key out) \<noteq> 0 \<and> fst (p d a key out) \<noteq> -1 \<and>
                 snd (snd (p d a key out)) = out))"

text \<open>The accumulator \<^verbatim>\<open>tmp_opts\<close> after sub-options have been added to it one by one.\<close>

definition merge_opts :: "string option \<Rightarrow> string list \<Rightarrow> string option" where
  "merge_opts acc ks = foldl (\<lambda>acc k. add_opt_common acc k True) acc ks"

text \<open>
  The re-coalescing of the spec, written out: the tokens after the program name are
  split into the decoded sub-options of all group options (\<^verbatim>\<open>-ovalue\<close>, or \<^verbatim>\<open>-o\<close>
  followed by its value) and the other tokens, both in input order. \<open>pos\<close> says that
  the separator has been seen, after which every token is an other token. The third
  component is the position of the separator among the other tokens, counted from 1, and
  0 when there is none. The result is \<open>None\<close> when a bare \<^verbatim>\<open>-o\<close> that is read as the
  marker of a group (before the separator, and not itself the value of a bare \<^verbatim>\<open>-o\<close>
  before it) has no token after it.
\<close>

fun regroup :: "bool \<Rightarrow> string list \<Rightarrow> (string list \<times> string list \<times> nat) option" where
  "regroup pos [] = Some ([], [], 0)"
| "regroup pos (t # ts) =
     (if pos \<or> chr_at t 0 \<noteq> CHR ''-'' then
        map_option (\<lambda>(os, fs, n). (os, t # fs, if n = 0 then 0 else Suc n)) (regroup pos ts)
      else if chr_at t 1 = CHR ''o'' then
        (if chr_at t 2 \<noteq> CHR 0x00 then
           map_option (\<lambda>(os, fs, n). (decode_optgroup [] (drop 2 t) @ os, fs, n)) (regroup pos ts)
         else case ts of
                [] \<Rightarrow> None
              | v # ts' \<Rightarrow>
                  map_option (\<lambda>(os, fs, n). (decode_optgroup [] v @ os, fs, n)) (regroup pos ts'))
      else if chr_at t 1 = CHR ''-'' \<and> chr_at t 2 = CHR 0x00 then
        map_option (\<lambda>(os, fs, n). (os, t # fs, 1)) (regroup True ts)
      else
        map_option (\<lambda>(os, fs, n). (os, t # fs, if n = 0 then 0 else Suc n)) (regroup pos ts))"

text \<open>
  The contexts of such a parse: the table \<open>opts\<close>, the callback \<open>p\<close>, the input vector
  \<open>all\<close> and the output vector \<open>out\<close>.
\<close>

definition good ::
  "fuse_opt list \<Rightarrow> fuse_opt_proc_t \<Rightarrow> string list \<Rightarrow> string list \<Rightarrow> fuse_opt_context \<Rightarrow> bool" where
  "good opts p all out ctx \<longleftrightarrow>
     in_opt ctx = opts \<and> in_proc ctx = Some p \<and>
     argc (in_args ctx) = int (length all) \<and> argv (in_args ctx) = Some all \<and>
     out_args ctx = \<lparr>argc = int (length out), argv = Some out, allocated = 1\<rparr>"

text \<open>
  A token sticks when looking it up in any such context keeps it exactly once and takes
  no further input token: as a flag-style token it is appended to the output vector, as
  a sub-option it is added to the accumulator.
\<close>

definition sticks ::
  "sscanf_t \<Rightarrow> fuse_opt list \<Rightarrow> fuse_opt_proc_t \<Rightarrow> fuse_gopt_type \<Rightarrow> string \<Rightarrow> bool" where
  "sticks sscanf opts p ty arg \<longleftrightarrow>
     (\<forall>all out ctx. good opts p all out ctx \<longrightarrow>
        (\<exists>ctx'. process_gopt sscanf ctx arg ty = Inr ctx' \<and>
           good opts p all (case ty of GOPT_FLAG \<Rightarrow> out @ [arg] | GOPT_OPTION \<Rightarrow> out) ctx' \<and>
           tmp_opts ctx' =
             (case ty of GOPT_FLAG \<Rightarrow> tmp_opts ctx
                       | GOPT_OPTION \<Rightarrow> add_opt_common (tmp_opts ctx) arg True) \<and>
           tmp_nonopt ctx' = tmp_nonopt ctx \<and> tmp_argctr ctx' = tmp_argctr ctx))"

text \<open>
  Every token that is looked up sticks: the flag-style tokens and the decoded sub-options
  of the group options, with the tokens classified as by \<open>regroup\<close>.
\<close>

fun all_stick ::
  "sscanf_t \<Rightarrow> fuse_opt list \<Rightarrow> fuse_opt_proc_t \<Rightarrow> bool \<Rightarrow> string list \<Rightarrow> bool" where
  "all_stick sscanf opts p pos [] = True"
| "all_stick sscanf opts p pos (t # ts) =
     (if pos \<or> chr_at t 0 \<noteq> CHR ''-'' then all_stick sscanf opts p pos ts
      else if chr_at t 1 = CHR ''o'' then
        (if chr_at t 2 \<noteq> CHR 0x00 then
           list_all (sticks sscanf opts p GOPT_OPTION) (decode_optgroup [] (drop 2 t)) \<and>
           all_stick sscanf opts p pos ts
         else case ts of
                [] \<Rightarrow> True
              | v # ts' \<Rightarrow>
                  list_all (sticks sscanf opts p GOPT_OPTION) (decode_optgroup [] v) \<and>
                  all_stick sscanf opts p pos ts')
      else if chr_at t 1 = CHR ''-'' \<and> chr_at t 2 = CHR 0x00 then all_stick sscanf opts p True ts
      else sticks sscanf opts p GOPT_FLAG t \<and> all_stick sscanf opts p pos ts)"

text \<open>
  What the loop of \<^verbatim>\<open>fuse_opt_parse\<close> does from a context \<open>ctx\<close> whose remaining input
  regroups to \<open>r\<close>: it fails for a missing argument when \<open>r\<close> is \<open>None\<close>; otherwise it ends in a context with the
  other tokens appended to the output, the sub-options merged into the accumulator, and
  \<^verbatim>\<open>tmp_nonopt\<close> pointing behind the separator.
\<close>

definition loop_post ::
  "sscanf_t \<Rightarrow> fuse_opt list \<Rightarrow> fuse_opt_proc_t \<Rightarrow> string list \<Rightarrow> string list \<Rightarrow>
   fuse_opt_context \<Rightarrow> (string list \<times> string list \<times> nat) option \<Rightarrow> bool" where
  "loop_post sscanf opts p all out ctx r =
     (case r of
        None \<Rightarrow> \<exists>a c. fuse_opt_parse_loop sscanf ctx = Inl (MissingArgument a, c)
      | Some (os, fs, n) \<Rightarrow>
          \<exists>ctx'. fuse_opt_parse_loop sscanf ctx = Inr ctx' \<and> good opts p all (out @ fs) ctx' \<and>
            tmp_opts ctx' = merge_opts (tmp_opts ctx) os \<and>
            tmp_nonopt ctx' =
              (if tmp_nonopt ctx \<noteq> 0 then tmp_nonopt ctx
               else if n = 0 then 0 else int (length out + n)))"

text \<open>
  The merged string for a non-empty list of kept sub-options: their escaped comma-join,
  except that empty sub-options kept while the accumulator is still empty leave no trace
  (\<^verbatim>\<open>add_opt_common\<close> writes a comma only after a non-empty accumulator). The separator
  is last when it is the last of the other tokens. \<open>expected_argv\<close> is the output for a
  regrouped input.
\<close>

definition merged_string :: "string list \<Rightarrow> string" where
  "merged_string ks = join_escaped (dropWhile (\<lambda>k. k = []) ks)"

definition separator_last :: "string list \<Rightarrow> nat \<Rightarrow> bool" where
  "separator_last fs n \<longleftrightarrow> n \<noteq> 0 \<and> n = length fs \<and> last fs = ''--''"

definition expected_argv :: "string \<Rightarrow> string list \<times> string list \<times> nat \<Rightarrow> string list" where
  "expected_argv prog r =
     (case r of (os, fs, n) \<Rightarrow>
        if os = [] then prog # (if separator_last fs n then butlast fs else fs)
        else prog # ''-o'' # merged_string os # fs)"

lemma keeps_every_token_keeps:
  "keeps_every_token p \<Longrightarrow> key \<noteq> FUSE_OPT_KEY_DISCARD \<Longrightarrow> keeps p key"
  by (simp add: keeps_every_token_def keeps_def)

lemma keep_flag:
  assumes "keeps p key" "good opts p all out ctx"
  shows "\<exists>ctx'. call_proc ctx arg key GOPT_FLAG = Inr ctx' \<and> good opts p all (out @ [arg]) ctx' \<and>
           tmp_opts ctx' = tmp_opts ctx \<and> tmp_nonopt ctx' = tmp_nonopt ctx \<and>
           tmp_argctr ctx' = tmp_argctr ctx"
proof (cases "key = FUSE_OPT_KEY_KEEP")
  case True
  with assms show ?thesis
    by (simp add: keeps_def call_proc_def call_proc_keep_def good_def fuse_opt_add_arg_def)
next
  case False
  obtain res d' out' where r: "p (inout_data ctx) arg key (out_args ctx) = (res, d', out')"
    by (cases "p (inout_data ctx) arg key (out_args ctx)")
  with assms(1) False have "res \<noteq> 0" "res \<noteq> -1" "out' = out_args ctx"
    unfolding keeps_def by (metis fst_conv snd_conv)+
  moreover from assms(1) have "key \<noteq> FUSE_OPT_KEY_DISCARD" by (simp add: keeps_def)
  ultimately show ?thesis
    using assms(2) r False
    by (simp add: call_proc_def call_proc_keep_def good_def fuse_opt_add_arg_def)
qed

lemma keep_option:
  assumes "keeps p key" "good opts p all out ctx"
  shows "\<exists>ctx'. call_proc ctx arg key GOPT_OPTION = Inr ctx' \<and> good opts p all out ctx' \<and>
           tmp_opts ctx' = add_opt_common (tmp_opts ctx) arg True \<and>
           tmp_nonopt ctx' = tmp_nonopt ctx \<and> tmp_argctr ctx' = tmp_argctr ctx"
proof (cases "key = FUSE_OPT_KEY_KEEP")
  case True
  with assms show ?thesis
    by (simp add: keeps_def call_proc_def call_proc_keep_def good_def)
next
  case False
  obtain res d' out' where r: "p (inout_data ctx) arg key (out_args ctx) = (res, d', out')"
    by (cases "p (inout_data ctx) arg key (out_args ctx)")
  with assms(1) False have "res \<noteq> 0" "res \<noteq> -1" "out' = out_args ctx"
    unfolding keeps_def by (metis fst_conv snd_conv)+
  moreover from assms(1) have "key \<noteq> FUSE_OPT_KEY_DISCARD" by (simp add: keeps_def)
  ultimately show ?thesis
    using assms(2) r False
    by (simp add: call_proc_def call_proc_keep_def good_def)
qed

lemma sticks_unmatched:
  assumes "keeps p FUSE_OPT_KEY_OPT" and "find_opt opts arg = None"
  shows "sticks sscanf opts p ty arg"
  unfolding sticks_def
proof (intro allI impI)
  fix all out ctx
  assume g: "good opts p all out ctx"
  with assms(2) have e: "process_gopt sscanf ctx arg ty = call_proc ctx arg FUSE_OPT_KEY_OPT ty"
    by (simp add: process_gopt_def good_def)
  show "\<exists>ctx'. process_gopt sscanf ctx arg ty = Inr ctx' \<and>
           good opts p all (case ty of GOPT_FLAG \<Rightarrow> out @ [arg] | GOPT_OPTION \<Rightarrow> out) ctx' \<and>
           tmp_opts ctx' =
             (case ty of GOPT_FLAG \<Rightarrow> tmp_opts ctx
                       | GOPT_OPTION \<Rightarrow> add_opt_common (tmp_opts ctx) arg True) \<and>
           tmp_nonopt ctx' = tmp_nonopt ctx \<and> tmp_argctr ctx' = tmp_argctr ctx"
    unfolding e
    using keep_flag[OF assms(1) g, of arg] keep_option[OF assms(1) g, of arg]
    by (cases ty) simp_all
qed

lemma dispatch_all_keep:
  "good opts p all out ctx \<Longrightarrow> list_all (sticks sscanf opts p GOPT_OPTION) xs \<Longrightarrow>
         \<exists>ctx'. dispatch_all sscanf ctx xs = Inr ctx' \<and> good opts p all out ctx' \<and>
           tmp_opts ctx' = merge_opts (tmp_opts ctx) xs \<and>
           tmp_nonopt ctx' = tmp_nonopt ctx \<and> tmp_argctr ctx' = tmp_argctr ctx"
proof (induction xs arbitrary: ctx)
  case Nil
  then show ?case by (simp add: merge_opts_def)
next
  case (Cons x xs)
  from Cons.prems(2) have "sticks sscanf opts p GOPT_OPTION x" by simp
  with Cons.prems(1)
  obtain c1 where c1: "process_gopt sscanf ctx x GOPT_OPTION = Inr c1"
    "good opts p all out c1" "tmp_opts c1 = add_opt_common (tmp_opts ctx) x True"
    "tmp_nonopt c1 = tmp_nonopt ctx" "tmp_argctr c1 = tmp_argctr ctx"
    unfolding sticks_def by fastforce
  from Cons.prems(2) have "list_all (sticks sscanf opts p GOPT_OPTION) xs" by simp
  from Cons.IH[OF c1(2) this] c1 show ?case
    by (auto simp: merge_opts_def)
qed


lemma good_argctr [simp]: "good opts p all out (ctx\<lparr>tmp_argctr := n\<rparr>) = good opts p all out ctx"
  by (simp add: good_def)

lemma process_one_keep:
  assumes k: "keeps p FUSE_OPT_KEY_NONOPT" and g: "good opts p all out ctx"
    and i: "tmp_argctr ctx = int i" "i < length all" and t: "t = all ! i"
    and u: "all_stick sscanf opts p (tmp_nonopt ctx \<noteq> 0) (drop i all)"
  shows
    "if tmp_nonopt ctx \<noteq> 0 \<or> chr_at t 0 \<noteq> CHR ''-'' then
       (\<exists>ctx'. process_one sscanf ctx = Inr ctx' \<and> good opts p all (out @ [t]) ctx' \<and>
           tmp_opts ctx' = tmp_opts ctx \<and> tmp_nonopt ctx' = tmp_nonopt ctx \<and>
           tmp_argctr ctx' = int i)
     else if chr_at t 1 = CHR ''o'' then
       (if chr_at t 2 \<noteq> CHR 0x00 then
          (\<exists>ctx'. process_one sscanf ctx = Inr ctx' \<and> good opts p all out ctx' \<and>
              tmp_opts ctx' = merge_opts (tmp_opts ctx) (decode_optgroup [] (drop 2 t)) \<and>
              tmp_nonopt ctx' = tmp_nonopt ctx \<and> tmp_argctr ctx' = int i)
        else if Suc i < length all then
          (\<exists>ctx'. process_one sscanf ctx = Inr ctx' \<and> good opts p all out ctx' \<and>
              tmp_opts ctx' = merge_opts (tmp_opts ctx) (decode_optgroup [] (all ! Suc i)) \<and>
              tmp_nonopt ctx' = tmp_nonopt ctx \<and> tmp_argctr ctx' = int (Suc i))
        else (\<exists>c. process_one sscanf ctx = Inl (MissingArgument t, c)))
     else if chr_at t 1 = CHR ''-'' \<and> chr_at t 2 = CHR 0x00 then
       (\<exists>ctx'. process_one sscanf ctx = Inr ctx' \<and> good opts p all (out @ [t]) ctx' \<and>
           tmp_opts ctx' = tmp_opts ctx \<and> tmp_nonopt ctx' = int (length out) + 1 \<and>
           tmp_argctr ctx' = int i)
     else
       (\<exists>ctx'. process_one sscanf ctx = Inr ctx' \<and> good opts p all (out @ [t]) ctx' \<and>
           tmp_opts ctx' = tmp_opts ctx \<and> tmp_nonopt ctx' = tmp_nonopt ctx \<and>
           tmp_argctr ctx' = int i)"
proof -
  have arg: "argv_at (in_args ctx) (tmp_argctr ctx) = t"
    using g i t by (simp add: good_def argv_at_def FUSE_ARGS_INIT_def)
  have d: "drop i all = t # drop (Suc i) all"
    using i t by (simp add: Cons_nth_drop_Suc)
  have argc: "argc (in_args ctx) = int (length all)"
    using g by (simp add: good_def FUSE_ARGS_INIT_def)
  show ?thesis
  proof (cases "tmp_nonopt ctx \<noteq> 0 \<or> chr_at t 0 \<noteq> CHR ''-''")
    case True
    from keep_flag[OF k g, of t] True arg i show ?thesis
      by (auto simp: process_one_def)
  next
    case pos: False
    show ?thesis
    proof (cases "chr_at t 1 = CHR ''o''")
      case o: True
      show ?thesis
      proof (cases "chr_at t 2 \<noteq> CHR 0x00")
        case True
        with u pos o have "list_all (sticks sscanf opts p GOPT_OPTION) (decode_optgroup [] (drop 2 t))"
          unfolding d by simp
        from dispatch_all_keep[OF g this] pos o True arg i
        show ?thesis
          by (auto simp: process_one_def process_one_optgroup_dispatch_all)
      next
        case bare: False
        show ?thesis
        proof (cases "Suc i < length all")
          case True
          have g1: "good opts p all out (ctx\<lparr>tmp_argctr := tmp_argctr ctx + 1\<rparr>)"
            using g by simp
          have nxt: "argv_at (in_args ctx) (tmp_argctr ctx + 1) = all ! Suc i"
            using g i by (simp add: good_def argv_at_def FUSE_ARGS_INIT_def nat_add_distrib)
          have d2: "drop (Suc i) all = all ! Suc i # drop (Suc (Suc i)) all"
            using True by (simp add: Cons_nth_drop_Suc)
          from u pos o bare
          have "list_all (sticks sscanf opts p GOPT_OPTION) (decode_optgroup [] (all ! Suc i))"
            unfolding d d2 by simp
          from dispatch_all_keep[OF g1 this]
            pos o bare True arg i argc nxt
          show ?thesis
            by (auto simp: process_one_def process_one_optgroup_dispatch_all)
        next
          case False
          with pos o bare arg i argc show ?thesis
            by (auto simp: process_one_def)
        qed
      qed
    next
      case no: False
      show ?thesis
      proof (cases "chr_at t 1 = CHR ''-'' \<and> chr_at t 2 = CHR 0x00")
        case True
        with pos no arg g show ?thesis
          by (auto simp: process_one_def good_def fuse_opt_add_arg_def i)
      next
        case False
        with u pos no have "sticks sscanf opts p GOPT_FLAG t"
          unfolding d by simp
        with g obtain c1 where "process_gopt sscanf ctx t GOPT_FLAG = Inr c1"
          "good opts p all (out @ [t]) c1" "tmp_opts c1 = tmp_opts ctx"
          "tmp_nonopt c1 = tmp_nonopt ctx" "tmp_argctr c1 = tmp_argctr ctx"
          unfolding sticks_def by fastforce
        with pos no False arg i show ?thesis
          by (auto simp: process_one_def)
      qed
    qed
  qed
qed


lemma merge_opts_Nil [simp]: "merge_opts acc [] = acc"
  by (simp add: merge_opts_def)

lemma merge_opts_append: "merge_opts (merge_opts acc xs) ys = merge_opts acc (xs @ ys)"
  by (simp add: merge_opts_def)

lemma loop_unfold_step:
  "tmp_argctr ctx < argc (in_args ctx) \<Longrightarrow> process_one sscanf ctx = Inr c1 \<Longrightarrow>
   fuse_opt_parse_loop sscanf ctx = fuse_opt_parse_loop sscanf (c1\<lparr>tmp_argctr := tmp_argctr c1 + 1\<rparr>)"
  by (subst fuse_opt_parse_loop.simps) simp

lemma loop_unfold_fail:
  "tmp_argctr ctx < argc (in_args ctx) \<Longrightarrow> process_one sscanf ctx = Inl e \<Longrightarrow>
   fuse_opt_parse_loop sscanf ctx = Inl e"
  by (subst fuse_opt_parse_loop.simps) simp

lemma loop_unfold_done:
  "\<not> tmp_argctr ctx < argc (in_args ctx) \<Longrightarrow> fuse_opt_parse_loop sscanf ctx = Inr ctx"
  by (subst fuse_opt_parse_loop.simps) simp

lemma loop_regroup:
  assumes k: "keeps p FUSE_OPT_KEY_NONOPT"
  shows "good opts p all out ctx \<Longrightarrow> tmp_argctr ctx = int i \<Longrightarrow> i \<le> length all \<Longrightarrow>
         all_stick sscanf opts p (tmp_nonopt ctx \<noteq> 0) (drop i all) \<Longrightarrow>
         loop_post sscanf opts p all out ctx (regroup (tmp_nonopt ctx \<noteq> 0) (drop i all))"
proof (induction "length all - i" arbitrary: i ctx out rule: less_induct)
  case less
  note g = less.prems(1) and i = less.prems(2) and u = less.prems(4)
  have argc: "argc (in_args ctx) = int (length all)"
    using g by (simp add: good_def FUSE_ARGS_INIT_def)
  show ?case
  proof (cases "i = length all")
    case True
    with g i argc show ?thesis
      by (simp add: loop_post_def loop_unfold_done)
  next
    case False
    with less.prems(3) have lt: "i < length all" by simp
    define t where "t = all ! i"
    have d: "drop i all = t # drop (Suc i) all"
      using lt by (simp add: t_def Cons_nth_drop_Suc)
    have cond: "tmp_argctr ctx < argc (in_args ctx)"
      using i lt argc by simp
    note step = process_one_keep[OF k g i lt t_def u]
    note u' = u[unfolded d]
    show ?thesis
    proof (cases "tmp_nonopt ctx \<noteq> 0 \<or> chr_at t 0 \<noteq> CHR ''-''")
      case True
      with step obtain c1 where c1: "process_one sscanf ctx = Inr c1"
        "good opts p all (out @ [t]) c1" "tmp_opts c1 = tmp_opts ctx"
        "tmp_nonopt c1 = tmp_nonopt ctx" "tmp_argctr c1 = int i"
        by auto
      let ?c = "c1\<lparr>tmp_argctr := tmp_argctr c1 + 1\<rparr>"
      have "loop_post sscanf opts p all (out @ [t]) ?c (regroup (tmp_nonopt ?c \<noteq> 0) (drop (Suc i) all))"
        using lt c1 u' True by (intro less.hyps) auto
      with True c1 show ?thesis
        unfolding loop_post_def d loop_unfold_step[OF cond c1(1)]
        by (auto split: option.splits)
    next
      case pos: False
      show ?thesis
      proof (cases "chr_at t 1 = CHR ''o''")
        case o: True
        show ?thesis
        proof (cases "chr_at t 2 \<noteq> CHR 0x00")
          case True
          with step pos o obtain c1 where c1: "process_one sscanf ctx = Inr c1"
            "good opts p all out c1"
            "tmp_opts c1 = merge_opts (tmp_opts ctx) (decode_optgroup [] (drop 2 t))"
            "tmp_nonopt c1 = tmp_nonopt ctx" "tmp_argctr c1 = int i"
            by auto
          let ?c = "c1\<lparr>tmp_argctr := tmp_argctr c1 + 1\<rparr>"
          have "loop_post sscanf opts p all out ?c (regroup (tmp_nonopt ?c \<noteq> 0) (drop (Suc i) all))"
            using lt c1 u' pos o True by (intro less.hyps) auto
          with pos o True c1 show ?thesis
            unfolding loop_post_def d loop_unfold_step[OF cond c1(1)]
            by (auto split: option.splits simp: merge_opts_append)
        next
          case bare: False
          show ?thesis
          proof (cases "Suc i < length all")
            case True
            with step pos o bare obtain c1 where c1: "process_one sscanf ctx = Inr c1"
              "good opts p all out c1"
              "tmp_opts c1 = merge_opts (tmp_opts ctx) (decode_optgroup [] (all ! Suc i))"
              "tmp_nonopt c1 = tmp_nonopt ctx" "tmp_argctr c1 = int (Suc i)"
              by auto
            let ?c = "c1\<lparr>tmp_argctr := tmp_argctr c1 + 1\<rparr>"
            have d2: "drop (Suc i) all = all ! Suc i # drop (Suc (Suc i)) all"
              using True by (simp add: Cons_nth_drop_Suc)
            have "loop_post sscanf opts p all out ?c
                    (regroup (tmp_nonopt ?c \<noteq> 0) (drop (Suc (Suc i)) all))"
              using True c1 u' pos o bare d2 by (intro less.hyps) auto
            with pos o bare c1 show ?thesis
              unfolding loop_post_def d d2 loop_unfold_step[OF cond c1(1)]
              by (auto split: option.splits simp: merge_opts_append)
          next
            case False
            with lt have e: "drop (Suc i) all = []" by simp
            from step pos o bare False obtain c' where
              "process_one sscanf ctx = Inl (MissingArgument t, c')"
              by auto
            with pos o bare show ?thesis
              unfolding loop_post_def d e
              by (simp add: loop_unfold_fail[OF cond])
          qed
        qed
      next
        case no: False
        show ?thesis
        proof (cases "chr_at t 1 = CHR ''-'' \<and> chr_at t 2 = CHR 0x00")
          case True
          with step pos no obtain c1 where c1: "process_one sscanf ctx = Inr c1"
            "good opts p all (out @ [t]) c1" "tmp_opts c1 = tmp_opts ctx"
            "tmp_nonopt c1 = int (length out) + 1" "tmp_argctr c1 = int i"
            by auto
          let ?c = "c1\<lparr>tmp_argctr := tmp_argctr c1 + 1\<rparr>"
          have "loop_post sscanf opts p all (out @ [t]) ?c
                  (regroup (tmp_nonopt ?c \<noteq> 0) (drop (Suc i) all))"
            using lt c1 u' pos no True by (intro less.hyps) auto
          moreover have "tmp_nonopt ?c \<noteq> 0" using c1 by simp
          ultimately show ?thesis
            using pos no True c1
            unfolding loop_post_def d loop_unfold_step[OF cond c1(1)]
            by (auto split: option.splits)
        next
          case False
          with step pos no obtain c1 where c1: "process_one sscanf ctx = Inr c1"
            "good opts p all (out @ [t]) c1" "tmp_opts c1 = tmp_opts ctx"
            "tmp_nonopt c1 = tmp_nonopt ctx" "tmp_argctr c1 = int i"
            by auto
          let ?c = "c1\<lparr>tmp_argctr := tmp_argctr c1 + 1\<rparr>"
          have "loop_post sscanf opts p all (out @ [t]) ?c
                  (regroup (tmp_nonopt ?c \<noteq> 0) (drop (Suc i) all))"
            using lt c1 u' pos no False by (intro less.hyps) auto
          with pos no False c1 show ?thesis
            unfolding loop_post_def d loop_unfold_step[OF cond c1(1)]
            by (auto split: option.splits)
        qed
      qed
    qed
  qed
qed


lemma escape_opt_Nil_iff [simp]: "escape_opt k = [] \<longleftrightarrow> k = []"
  by (cases k) (auto simp: escape_opt_def)

lemma add_opt_common_escape:
  "add_opt_common acc k True =
     Some ((case acc of None \<Rightarrow> [] | Some s \<Rightarrow> if s = [] then [] else s @ [CHR '','']) @ escape_opt k)"
  by (auto simp: add_opt_common_def escape_opt_def Let_def split: option.splits)

lemma join_escaped_Cons:
  "join_escaped (k # ks) = escape_opt k @ concat (map (\<lambda>k. CHR '','' # escape_opt k) ks)"
  by (induction ks arbitrary: k) auto

lemma merge_opts_Some:
  "merge_opts (Some s) ks =
     Some (if s = [] then merged_string ks
           else s @ concat (map (\<lambda>k. CHR '','' # escape_opt k) ks))"
proof (induction ks arbitrary: s)
  case Nil
  then show ?case by (simp add: merged_string_def)
next
  case (Cons k ks)
  have "merge_opts (Some s) (k # ks) = merge_opts (add_opt_common (Some s) k True) ks"
    by (simp add: merge_opts_def)
  then show ?case
    by (cases "k = []") (auto simp: add_opt_common_escape Cons.IH merged_string_def join_escaped_Cons)
qed

lemma merge_opts_None:
  "merge_opts None ks = (if ks = [] then None else Some (merged_string ks))"
proof (cases ks)
  case Nil
  then show ?thesis by simp
next
  case (Cons k ks')
  have "merge_opts None (k # ks') = merge_opts (Some (escape_opt k)) ks'"
    by (simp add: merge_opts_def add_opt_common_escape)
  with Cons show ?thesis
    by (cases "k = []") (auto simp: merge_opts_Some merged_string_def join_escaped_Cons)
qed

lemma regroup_n: "regroup pos toks = Some (os, fs, n) \<Longrightarrow> n \<le> length fs"
proof (induction pos toks arbitrary: os fs n rule: regroup.induct)
  case (1 pos)
  then show ?case by simp
next
  case (2 pos t ts)
  show ?case
  proof (cases "pos \<or> chr_at t 0 \<noteq> CHR ''-''")
    case True
    with "2.prems" "2.IH"(1) show ?thesis by (auto split: if_splits)
  next
    case pos: False
    show ?thesis
    proof (cases "chr_at t 1 = CHR ''o''")
      case o: True
      show ?thesis
      proof (cases "chr_at t 2 \<noteq> CHR 0x00")
        case True
        with "2.prems" "2.IH"(2) pos o show ?thesis by auto
      next
        case False
        with "2.prems" "2.IH"(3) pos o show ?thesis by (auto split: list.splits)
      qed
    next
      case no: False
      show ?thesis
      proof (cases "chr_at t 1 = CHR ''-'' \<and> chr_at t 2 = CHR 0x00")
        case True
        with "2.prems" pos no show ?thesis by auto
      next
        case False
        with "2.prems" "2.IH"(5) pos no show ?thesis by (auto split: if_splits)
      qed
    qed
  qed
qed

lemma insert_arg_front:
  "fuse_opt_insert_arg \<lparr>argc = int (length (x # xs)), argv = Some (x # xs), allocated = 1\<rparr> 1 a
     = Inr \<lparr>argc = int (length (x # a # xs)), argv = Some (x # a # xs), allocated = 1\<rparr>"
  by (cases xs rule: rev_cases)
    (auto simp: fuse_opt_insert_arg_def fuse_opt_insert_arg_common_def fuse_opt_add_arg_def
      butlast_append)

lemma insert_arg_second:
  "fuse_opt_insert_arg \<lparr>argc = int (length (x # y # xs)), argv = Some (x # y # xs), allocated = 1\<rparr> 2 a
     = Inr \<lparr>argc = int (length (x # y # a # xs)), argv = Some (x # y # a # xs), allocated = 1\<rparr>"
  by (cases xs rule: rev_cases)
    (auto simp: fuse_opt_insert_arg_def fuse_opt_insert_arg_common_def fuse_opt_add_arg_def
      butlast_append numeral_2_eq_2)

lemma finish_keep:
  assumes o: "out_args ctx = \<lparr>argc = int (length (prog # fs)), argv = Some (prog # fs), allocated = 1\<rparr>"
    and n: "tmp_nonopt ctx = (if n = 0 then 0 else int (1 + n))" "n \<le> length fs"
  shows "\<exists>ctx'. fuse_opt_parse_finish ctx = Inr ctx' \<and> inout_data ctx' = inout_data ctx \<and>
           out_args ctx' =
             (case tmp_opts ctx of
                None \<Rightarrow>
                  \<lparr>argc = int (length (prog # (if n \<noteq> 0 \<and> n = length fs \<and> last fs = ''--''
                                                 then butlast fs else fs))),
                   argv = Some (prog # (if n \<noteq> 0 \<and> n = length fs \<and> last fs = ''--''
                                        then butlast fs else fs)),
                   allocated = 1\<rparr>
              | Some m \<Rightarrow>
                  \<lparr>argc = int (length (prog # ''-o'' # m # fs)),
                   argv = Some (prog # ''-o'' # m # fs), allocated = 1\<rparr>)"
proof (cases "tmp_opts ctx")
  case None
  show ?thesis
  proof (cases "n \<noteq> 0 \<and> n = length fs \<and> last fs = ''--''")
    case True
    then have "fs \<noteq> []" by auto
    with True None o n show ?thesis
      by (auto simp: fuse_opt_parse_finish_def argv_at_def last_conv_nth nat_diff_distrib
          butlast_conv_take take_Cons')
  next
    case False
    with None o n show ?thesis
      by (cases "fs = []")
        (auto simp: fuse_opt_parse_finish_def argv_at_def last_conv_nth nat_diff_distrib)
  qed
next
  case (Some m)
  have "tmp_nonopt ctx \<noteq> int (length (prog # ''-o'' # m # fs)) \<or> tmp_nonopt ctx = 0"
    using n by (auto split: if_splits)
  with Some o show ?thesis
    unfolding fuse_opt_parse_finish_def
    by (auto simp: insert_arg_front insert_arg_second simp del: length_Cons list.size)
qed


text \<open>A vector as the parser builds it, and the merged group that is inserted into it.\<close>

definition built :: "string list \<Rightarrow> fuse_args" where
  "built xs = \<lparr>argc = int (length xs), argv = Some xs, allocated = 1\<rparr>"

definition group_args :: "string list \<Rightarrow> string list" where
  "group_args os = (if os = [] then [] else [''-o'', merged_string os])"

lemma parse_sticky:
  assumes "keeps p FUSE_OPT_KEY_NONOPT"
    and a: "argc a = int (length (prog # toks))" "argv a = Some (prog # toks)"
    and u: "all_stick sscanf opts p False toks"
  shows "\<exists>d'. fuse_opt_parse sscanf (Some a) d opts (Some p) =
           (case regroup False toks of
              None \<Rightarrow> Some (-1, Some a, d')
            | Some r \<Rightarrow> Some (0, Some (built (expected_argv prog r)), d'))"
proof -
  let ?all = "prog # toks"
  let ?c0 = "\<lparr>in_opt = opts, in_proc = Some p, in_args = a, inout_data = d,
              out_args = \<lparr>argc = 1, argv = Some [prog], allocated = 1\<rparr>,
              tmp_argctr = 1, tmp_opts = None, tmp_nonopt = 0, trace = []\<rparr>"
  have init: "fuse_opt_parse_init a d opts (Some p) = Inr ?c0"
    using a by (simp add: fuse_opt_parse_init_def fuse_opt_add_arg_def argv_at_def)
  have g: "good opts p ?all [prog] ?c0"
    using a by (simp add: good_def)
  have guard: "argv a \<noteq> None" "argc a \<noteq> 0"
    using a by simp_all
  from loop_regroup[OF assms(1) g, of 1 sscanf] u
  have post: "loop_post sscanf opts p ?all [prog] ?c0 (regroup False toks)"
    by simp
  show ?thesis
  proof (cases "regroup False toks")
    case None
    with post obtain x c where "fuse_opt_parse_loop sscanf ?c0 = Inl (MissingArgument x, c)"
      by (auto simp: loop_post_def)
    with None init guard show ?thesis
      by (auto simp: fuse_opt_parse_def fuse_opt_parse_ctx_def)
  next
    case (Some r)
    obtain os fs n where r: "r = (os, fs, n)" by (cases r)
    from post Some r obtain c1 where c1: "fuse_opt_parse_loop sscanf ?c0 = Inr c1"
      "good opts p ?all (prog # fs) c1" "tmp_opts c1 = merge_opts None os"
      "tmp_nonopt c1 = (if n = 0 then 0 else int (1 + n))"
      by (auto simp: loop_post_def)
    from regroup_n Some r have "n \<le> length fs" by blast
    from c1(2) have "out_args c1 = \<lparr>argc = int (length (prog # fs)), argv = Some (prog # fs),
                                      allocated = 1\<rparr>"
      by (simp add: good_def)
    from finish_keep[OF this c1(4) \<open>n \<le> length fs\<close>] obtain c2 where c2: "fuse_opt_parse_finish c1 = Inr c2"
      "out_args c2 =
             (case tmp_opts c1 of
                None \<Rightarrow>
                  \<lparr>argc = int (length (prog # (if n \<noteq> 0 \<and> n = length fs \<and> last fs = ''--''
                                                 then butlast fs else fs))),
                   argv = Some (prog # (if n \<noteq> 0 \<and> n = length fs \<and> last fs = ''--''
                                        then butlast fs else fs)),
                   allocated = 1\<rparr>
              | Some m \<Rightarrow>
                  \<lparr>argc = int (length (prog # ''-o'' # m # fs)),
                   argv = Some (prog # ''-o'' # m # fs), allocated = 1\<rparr>)"
      by blast
    have "out_args c2 = built (expected_argv prog r)"
      unfolding c2(2) c1(3) r expected_argv_def separator_last_def built_def
      by (simp add: merge_opts_None)
    with Some init guard c1(1) c2(1) show ?thesis
      by (auto simp: fuse_opt_parse_def fuse_opt_parse_ctx_def)
  qed
qed

lemma all_stick_unmatched:
  "keeps p FUSE_OPT_KEY_OPT \<Longrightarrow> (\<And>arg. find_opt opts arg = None) \<Longrightarrow>
   all_stick sscanf opts p pos toks"
proof (induction sscanf opts p pos toks rule: all_stick.induct)
  case (1 sscanf opts p pos)
  then show ?case by simp
next
  case (2 sscanf opts p pos t ts)
  note k = "2.prems"(1) and f = "2.prems"(2)
  have s: "sticks sscanf opts p ty arg" for ty arg
    using sticks_unmatched[OF k f] .
  show ?case
  proof (cases "pos \<or> chr_at t 0 \<noteq> CHR ''-''")
    case True
    with "2.IH"(1)[OF True k f] show ?thesis by simp
  next
    case pos: False
    show ?thesis
    proof (cases "chr_at t 1 = CHR ''o''")
      case o: True
      show ?thesis
      proof (cases "chr_at t 2 \<noteq> CHR 0x00")
        case True
        with "2.IH"(2)[OF pos o True k f] pos o s show ?thesis by (simp add: list_all_iff)
      next
        case bare: False
        show ?thesis
        proof (cases ts)
          case Nil
          with pos o bare show ?thesis by simp
        next
          case (Cons v ts')
          with "2.IH"(3)[OF pos o bare Cons k f] pos o bare s show ?thesis
            by (simp add: list_all_iff)
        qed
      qed
    next
      case no: False
      show ?thesis
      proof (cases "chr_at t 1 = CHR ''-'' \<and> chr_at t 2 = CHR 0x00")
        case True
        with "2.IH"(4)[OF pos no True k f] pos no show ?thesis by simp
      next
        case False
        with "2.IH"(5)[OF pos no False k f] pos no s show ?thesis by auto
      qed
    qed
  qed
qed

text \<open>
  Claim C6, as amended. With an empty table and a callback that keeps every token and
  leaves the output vector alone, the parse of \<^verbatim>\<open>prog\<close> and any tokens fails (it returns
  \<open>-1\<close> and leaves the caller's \<^verbatim>\<open>*args\<close> as it was) exactly when a bare \<^verbatim>\<open>-o\<close> that is
  read as the marker of a group (before the separator, and not itself the value of a bare
  \<^verbatim>\<open>-o\<close> before it) has no token after it. Otherwise it succeeds, and the output is the
  program name; then, if the input has a group option, \<^verbatim>\<open>-o\<close> and one merged string: the
  decoded sub-options of all group options in input order, without the empty ones before
  the first non-empty one, escaped and joined by commas; then all other tokens in input
  order. A separator that is the last of the other tokens is dropped when the input has no
  group option; when it has one, the statement leaves open whether that separator stays.
\<close>

theorem keep_all_regroups:
  assumes "keeps_every_token p"
  shows "\<exists>d' rest.
           fuse_opt_parse sscanf (Some (FUSE_ARGS_INIT (prog # toks))) d [] (Some p) =
             (case regroup False toks of
                None \<Rightarrow> Some (-1, Some (FUSE_ARGS_INIT (prog # toks)), d')
              | Some (os, fs, n) \<Rightarrow> Some (0, Some (built (prog # group_args os @ rest)), d')) \<and>
           (case regroup False toks of
              None \<Rightarrow> True
            | Some (os, fs, n) \<Rightarrow>
                if separator_last fs n
                then (if os = [] then rest = butlast fs else rest = fs \<or> rest = butlast fs)
                else rest = fs)"
proof -
  have k: "keeps p FUSE_OPT_KEY_NONOPT" "keeps p FUSE_OPT_KEY_OPT"
    using assms
    by (simp_all add: keeps_every_token_keeps FUSE_OPT_KEY_NONOPT_def FUSE_OPT_KEY_OPT_def
        FUSE_OPT_KEY_DISCARD_def)
  have "all_stick sscanf [] p False toks"
    using k(2) by (rule all_stick_unmatched) simp
  from parse_sticky[OF k(1) _ _ this, of "FUSE_ARGS_INIT (prog # toks)" prog d]
  obtain d' where r: "fuse_opt_parse sscanf (Some (FUSE_ARGS_INIT (prog # toks))) d [] (Some p) =
           (case regroup False toks of
              None \<Rightarrow> Some (-1, Some (FUSE_ARGS_INIT (prog # toks)), d')
            | Some r \<Rightarrow> Some (0, Some (built (expected_argv prog r)), d'))"
    by (auto simp: FUSE_ARGS_INIT_def)
  show ?thesis
  proof (cases "regroup False toks")
    case None
    with r show ?thesis by auto
  next
    case (Some x)
    obtain os fs n where x: "x = (os, fs, n)" by (cases x)
    let ?rest = "if os = [] \<and> separator_last fs n then butlast fs else fs"
    have "expected_argv prog x = prog # group_args os @ ?rest"
      by (simp add: x expected_argv_def group_args_def)
    with r Some x show ?thesis
      by (intro exI[of _ d'] exI[of _ ?rest]) simp
  qed
qed

text \<open>
  Claim C6 as stated fails: the parse of \<^verbatim>\<open>prog -o\<close> does not succeed; the parse of
  \<^verbatim>\<open>prog a --\<close> drops the token \<^verbatim>\<open>--\<close>; and the parse of \<^verbatim>\<open>prog -o ,x\<close> loses the empty
  sub-option, so that the merged string is \<^verbatim>\<open>x\<close>.
\<close>

theorem keep_all_is_not_identity:
  "fuse_opt_parse (\<lambda>_ _. None) (Some (FUSE_ARGS_INIT [''prog'', ''-o''])) Map.empty []
     (Some (\<lambda>d a k out. (1, d, out)))
   = Some (-1, Some (FUSE_ARGS_INIT [''prog'', ''-o'']), Map.empty)
   \<and> fuse_opt_parse (\<lambda>_ _. None) (Some (FUSE_ARGS_INIT [''prog'', ''a'', ''--''])) Map.empty []
     (Some (\<lambda>d a k out. (1, d, out)))
   = Some (0, Some \<lparr>argc = 2, argv = Some [''prog'', ''a''], allocated = 1\<rparr>, Map.empty)
   \<and> fuse_opt_parse (\<lambda>_ _. None) (Some (FUSE_ARGS_INIT [''prog'', ''-o'', '',x''])) Map.empty []
     (Some (\<lambda>d a k out. (1, d, out)))
   = Some (0, Some \<lparr>argc = 3, argv = Some [''prog'', ''-o'', ''x''], allocated = 1\<rparr>, Map.empty)"
  by (simp add: eval_defs)

theorem keep_all_regroups_witness:
  "\<exists>d'. fuse_opt_parse (\<lambda>_ _. None)
          (Some (FUSE_ARGS_INIT [''prog'', ''-f'', ''-o'', '',a,b'', ''x'', ''-oc'', ''--'', ''-o'']))
          Map.empty [] (Some (\<lambda>d a k out. (1, d, out)))
        = Some (0, Some \<lparr>argc = 7,
                    argv = Some [''prog'', ''-o'', ''a,b,c'', ''-f'', ''x'', ''--'', ''-o''],
                    allocated = 1\<rparr>, d')"
  using keep_all_regroups[where p = "\<lambda>d a k out. (1, d, out)" and sscanf = "\<lambda>_ _. None"
      and prog = "''prog''" and toks = "[''-f'', ''-o'', '',a,b'', ''x'', ''-oc'', ''--'', ''-o'']"
      and d = Map.empty]
  by (auto simp: keeps_every_token_def chr_at_def decode_optgroup.simps cstring_def built_def
      group_args_def merged_string_def escape_opt_def separator_last_def)

subsection \<open>The output is a fixed point of the regrouping\<close>

text \<open>
  Decoded sub-options contain no NUL byte; the other tokens of a regrouped input regroup
  to themselves; and the merged string decodes to the sub-options it was built from.
\<close>

lemma decode_optgroup_nonempty [simp]: "decode_optgroup d s \<noteq> []"
  by (induction d s rule: decode_optgroup.induct) (auto simp: decode_optgroup.simps)

lemma cstring_nonul_set: "CHR 0x00 \<notin> set (cstring d)"
  unfolding cstring_def by (auto dest: set_takeWhileD)

lemma decode_optgroup_nonul: "k \<in> set (decode_optgroup d s) \<Longrightarrow> CHR 0x00 \<notin> set k"
proof (induction d s rule: decode_optgroup.induct)
  case (1 d)
  then show ?case by (simp add: decode_optgroup.simps cstring_nonul_set)
next
  case (2 d c s)
  show ?case
  proof (cases "c = CHR '',''")
    case True
    with "2.prems" "2.IH"(1) show ?thesis
      by (auto simp: decode_optgroup.simps cstring_nonul_set)
  next
    case False
    with "2.prems" "2.IH"(2,3,4) show ?thesis
      by (auto simp: decode_optgroup.simps(2)[of d c s] split: if_splits)
  qed
qed

lemma regroup_ConsE:
  assumes "regroup pos (t # ts) = Some (os, fs, n)"
  obtains
    (other) fs' n' where
      "pos \<or> chr_at t 0 \<noteq> CHR ''-'' \<or>
       (chr_at t 1 \<noteq> CHR ''o'' \<and> \<not> (chr_at t 1 = CHR ''-'' \<and> chr_at t 2 = CHR 0x00))"
      "regroup pos ts = Some (os, fs', n')" "fs = t # fs'" "n = (if n' = 0 then 0 else Suc n')"
  | (group_in) os' where
      "\<not> pos" "chr_at t 0 = CHR ''-''" "chr_at t 1 = CHR ''o''" "chr_at t 2 \<noteq> CHR 0x00"
      "regroup pos ts = Some (os', fs, n)" "os = decode_optgroup [] (drop 2 t) @ os'"
  | (group_next) v ts' os' where
      "\<not> pos" "chr_at t 0 = CHR ''-''" "chr_at t 1 = CHR ''o''" "chr_at t 2 = CHR 0x00"
      "ts = v # ts'" "regroup pos ts' = Some (os', fs, n)" "os = decode_optgroup [] v @ os'"
  | (sep) fs' n' where
      "\<not> pos" "chr_at t 0 = CHR ''-''" "chr_at t 1 = CHR ''-''" "chr_at t 2 = CHR 0x00"
      "regroup True ts = Some (os, fs', n')" "fs = t # fs'" "n = 1"
proof (cases "pos \<or> chr_at t 0 \<noteq> CHR ''-''")
  case True
  with assms other show ?thesis by (auto split: if_splits)
next
  case pos: False
  show ?thesis
  proof (cases "chr_at t 1 = CHR ''o''")
    case o: True
    show ?thesis
    proof (cases "chr_at t 2 \<noteq> CHR 0x00")
      case True
      with assms pos o group_in show ?thesis by auto
    next
      case False
      with assms pos o group_next show ?thesis by (auto split: list.splits)
    qed
  next
    case no: False
    show ?thesis
    proof (cases "chr_at t 1 = CHR ''-'' \<and> chr_at t 2 = CHR 0x00")
      case True
      with assms pos no sep show ?thesis by auto
    next
      case False
      with assms pos no other show ?thesis by (auto split: if_splits)
    qed
  qed
qed

lemma regroup_nonul:
  "regroup pos toks = Some (os, fs, n) \<Longrightarrow> k \<in> set os \<Longrightarrow> CHR 0x00 \<notin> set k"
proof (induction toks arbitrary: pos os fs n rule: length_induct)
  case (1 toks)
  have IH: "CHR 0x00 \<notin> set k"
    if "length ys < length toks" "regroup pos' ys = Some (os', fs', n')" "k \<in> set os'"
    for ys pos' os' fs' n'
    using "1.IH"[rule_format, OF that] .
  show ?case
  proof (cases toks)
    case Nil
    with "1.prems" show ?thesis by simp
  next
    case (Cons t ts)
    then have len: "length ts < length toks" by simp
    from "1.prems"(1)[unfolded Cons] show ?thesis
    proof (cases rule: regroup_ConsE)
      case (other fs' n')
      from IH[OF len other(2) "1.prems"(2)] show ?thesis .
    next
      case (group_in os')
      from "1.prems"(2) group_in(6) consider "k \<in> set (decode_optgroup [] (drop 2 t))" | "k \<in> set os'"
        by auto
      then show ?thesis
      proof cases
        case 1
        then show ?thesis by (rule decode_optgroup_nonul)
      next
        case 2
        from IH[OF len group_in(5) 2] show ?thesis .
      qed
    next
      case (group_next v ts' os')
      from Cons group_next(5) have len': "length ts' < length toks" by simp
      from "1.prems"(2) group_next(7) consider "k \<in> set (decode_optgroup [] v)" | "k \<in> set os'"
        by auto
      then show ?thesis
      proof cases
        case 1
        then show ?thesis by (rule decode_optgroup_nonul)
      next
        case 2
        from IH[OF len' group_next(6) 2] show ?thesis .
      qed
    next
      case (sep fs' n')
      from IH[OF len sep(5) "1.prems"(2)] show ?thesis .
    qed
  qed
qed

lemma regroup_other_step:
  assumes c: "pos \<or> chr_at t 0 \<noteq> CHR ''-'' \<or>
       (chr_at t 1 \<noteq> CHR ''o'' \<and> \<not> (chr_at t 1 = CHR ''-'' \<and> chr_at t 2 = CHR 0x00))"
    and r: "regroup pos ts = Some (os, fs, n)"
  shows "regroup pos (t # ts) = Some (os, t # fs, if n = 0 then 0 else Suc n)"
proof (cases "pos \<or> chr_at t 0 \<noteq> CHR ''-''")
  case True
  with r show ?thesis by simp
next
  case False
  with c have "chr_at t 1 \<noteq> CHR ''o''" "\<not> (chr_at t 1 = CHR ''-'' \<and> chr_at t 2 = CHR 0x00)"
    by auto
  with False r show ?thesis by simp
qed

lemma regroup_sep_step:
  assumes "\<not> pos" "chr_at t 0 = CHR ''-''" "chr_at t 1 = CHR ''-''" "chr_at t 2 = CHR 0x00"
    and r: "regroup True ts = Some (os, fs, n)"
  shows "regroup pos (t # ts) = Some (os, t # fs, 1)"
  using assms by simp

lemma regroup_others:
  "regroup pos toks = Some (os, fs, n) \<Longrightarrow> regroup pos fs = Some ([], fs, n)"
proof (induction toks arbitrary: pos os fs n rule: length_induct)
  case (1 toks)
  have IH: "regroup pos' fs' = Some ([], fs', n')"
    if "length ys < length toks" "regroup pos' ys = Some (os', fs', n')"
    for ys pos' os' fs' n'
    using "1.IH"[rule_format, OF that] .
  show ?case
  proof (cases toks)
    case Nil
    with "1.prems" show ?thesis by simp
  next
    case (Cons t ts)
    then have len: "length ts < length toks" by simp
    from "1.prems"(1)[unfolded Cons] show ?thesis
    proof (cases rule: regroup_ConsE)
      case (other fs' n')
      from IH[OF len other(2)] have "regroup pos fs' = Some ([], fs', n')" .
      from regroup_other_step[OF other(1) this] other(3,4) show ?thesis by simp
    next
      case (group_in os')
      from IH[OF len group_in(5)] show ?thesis .
    next
      case (group_next v ts' os')
      from Cons group_next(5) have len': "length ts' < length toks" by simp
      from IH[OF len' group_next(6)] show ?thesis .
    next
      case (sep fs' n')
      from IH[OF len sep(5)] have "regroup True fs' = Some ([], fs', n')" .
      from regroup_sep_step[OF sep(1,2,3,4) this] sep(6,7) show ?thesis by simp
    qed
  qed
qed




section \<open>Where the kept tokens end up\<close>

text \<open>
  A callback that leaves the output vector it is handed as it is (a NULL callback does).
\<close>

definition leaves_output :: "fuse_opt_proc_t option \<Rightarrow> bool" where
  "leaves_output proc =
     (case proc of None \<Rightarrow> True | Some p \<Rightarrow> \<forall>d a k out. snd (snd (p d a k out)) = out)"

text \<open>
  Read off the trace: the tokens appended to the output vector (kept flag-style and
  positional tokens, and the separator), and the kept sub-options of group options, both
  in the order in which they were kept.
\<close>

fun kept_args :: "event list \<Rightarrow> string list" where
  "kept_args [] = []"
| "kept_args (Kept GOPT_FLAG a k # es) = a # kept_args es"
| "kept_args (Separator a # es) = a # kept_args es"
| "kept_args (e # es) = kept_args es"

fun kept_opts :: "event list \<Rightarrow> string list" where
  "kept_opts [] = []"
| "kept_opts (Kept GOPT_OPTION a k # es) = a # kept_opts es"
| "kept_opts (e # es) = kept_opts es"

text \<open>
  The invariant of the parse: the output vector is the program name followed by the kept
  tokens, the accumulator holds the kept sub-options merged, and \<^verbatim>\<open>tmp_nonopt\<close> does not
  point beyond the output vector.
\<close>

definition consistent :: "string \<Rightarrow> fuse_opt_context \<Rightarrow> bool" where
  "consistent prog ctx \<longleftrightarrow>
     out_args ctx = \<lparr>argc = int (length (prog # kept_args (trace ctx))),
                     argv = Some (prog # kept_args (trace ctx)), allocated = 1\<rparr> \<and>
     tmp_opts ctx = merge_opts None (kept_opts (trace ctx)) \<and>
     tmp_nonopt ctx \<le> int (length (prog # kept_args (trace ctx))) \<and>
     leaves_output (in_proc ctx)"




lemma consistent_argctr [simp]: "consistent prog (ctx\<lparr>tmp_argctr := n\<rparr>) = consistent prog ctx"
  by (simp add: consistent_def)















section \<open>Parsing the output again\<close>





text \<open>
  The invariant of the first parse: besides \<open>consistent\<close>, the kept sub-options have no
  NUL byte and stick, the kept tokens contain no group option and their flags stick, and
  \<^verbatim>\<open>tmp_nonopt\<close> points behind the separator among them.
\<close>

definition normal ::
  "sscanf_t \<Rightarrow> fuse_opt_proc_t \<Rightarrow> fuse_opt list \<Rightarrow> string \<Rightarrow> fuse_opt_context \<Rightarrow> bool" where
  "normal sscanf q opts prog ctx \<longleftrightarrow>
     consistent prog ctx \<and> in_opt ctx = opts \<and>
     list_all (\<lambda>k. CHR 0x00 \<notin> set k \<and> sticks sscanf opts q GOPT_OPTION k) (kept_opts (trace ctx)) \<and>
     all_stick sscanf opts q False (kept_args (trace ctx)) \<and>
     (\<exists>n. regroup False (kept_args (trace ctx)) = Some ([], kept_args (trace ctx), n) \<and>
          tmp_nonopt ctx = (if n = 0 then 0 else int (1 + n)))"






lemma normal_argctr [simp]: "normal sscanf q opts prog (ctx\<lparr>tmp_argctr := n\<rparr>) = normal sscanf q opts prog ctx"
  by (simp add: normal_def)

lemma normal_data [simp]: "normal sscanf q opts prog (ctx\<lparr>inout_data := d\<rparr>) = normal sscanf q opts prog ctx"
  by (simp add: normal_def consistent_def)

















lemma good_data [simp]: "good opts p all out (ctx\<lparr>inout_data := d\<rparr>) = good opts p all out ctx"
  by (simp add: good_def)
















end
